theory Spec2Isabelle
  imports Complex_Main "HOL-Library.Multiset"
begin

section \<open>Errors raised by the data pipeline\<close>

text \<open>
  The Python exceptions that the modelled functions of \<^verbatim>\<open>deepdft/dataset.py\<close> can raise.
  Every raise of the source is a value \<open>Inl e\<close> of a result type \<open>error + 'a\<close>.
\<close>

datatype error =
    IndexError
  | KeyError
  | ValueError
  | ZeroDivisionError
  | AssertionError
  | RuntimeError
  | StopIteration

text \<open>
  A list comprehension or a \<open>for\<close> loop whose body can raise: the elements are
  processed from left to right and the first exception ends the loop.
\<close>

fun map_result :: "('a \<Rightarrow> error + 'b) \<Rightarrow> 'a list \<Rightarrow> error + 'b list" where
  "map_result f [] = Inr []"
| "map_result f (x # xs) =
     (case f x of
        Inl e \<Rightarrow> Inl e
      | Inr y \<Rightarrow> (case map_result f xs of Inl e \<Rightarrow> Inl e | Inr ys \<Rightarrow> Inr (y # ys)))"

section \<open>Grid slicing (\<^verbatim>\<open>DensityGridIterator\<close>)\<close>

text \<open>
  A grid shape is \<open>meshgrid.shape[0:3]\<close>; \<open>np.prod\<close> of it is the number of grid
  points. Slice indices, probe counts and flat indices are non-negative integers.
\<close>

type_synonym shape = "nat \<times> nat \<times> nat"

definition prod_shape :: "shape \<Rightarrow> nat" where
  "prod_shape s = (case s of (nx, ny, nz) \<Rightarrow> nx * ny * nz)"

text \<open>\<open>np.arange(start, stop)\<close> on integers; empty when \<open>stop \<le> start\<close>.\<close>

definition arange :: "nat \<Rightarrow> nat \<Rightarrow> nat list" where
  "arange start stop = [start..<stop]"

text \<open>
  \<open>DensityGridIterator.__init__\<close>: \<open>int(math.ceil(num_positions / probe_count))\<close>.
  The true division is modelled over the reals (it is exact in double precision for
  every grid of fewer than \<open>2^53\<close> points); dividing by zero raises.
\<close>

definition num_slices :: "shape \<Rightarrow> nat \<Rightarrow> error + nat" where
  "num_slices s probe_count =
     (if probe_count = 0 then Inl ZeroDivisionError
      else Inr (nat \<lceil>real (prod_shape s) / real probe_count\<rceil>))"

text \<open>The first line of \<open>static_get_slice\<close> after \<open>num_positions\<close>.\<close>

definition flat_index :: "nat \<Rightarrow> nat \<Rightarrow> shape \<Rightarrow> nat list" where
  "flat_index slice_index probe_count s =
     arange (slice_index * probe_count)
            (min ((slice_index + 1) * probe_count) (prod_shape s))"

text \<open>
  \<open>np.unravel_index\<close> in its default row-major (C) order, for one flat index; an index
  outside the grid raises \<open>ValueError\<close>.
\<close>

definition unravel_index :: "nat \<Rightarrow> shape \<Rightarrow> error + (nat \<times> nat \<times> nat)" where
  "unravel_index f s =
     (case s of (nx, ny, nz) \<Rightarrow>
        if f < nx * ny * nz then Inr (f div (ny * nz), (f div nz) mod ny, f mod nz)
        else Inl ValueError)"

text \<open>
  A three-dimensional array indexed by grid position: the probe positions
  (\<open>grid_position\<close>, elements in space) and the density (elements are reals).
\<close>

record 'a grid =
  grid_shape :: shape
  grid_at :: "nat \<times> nat \<times> nat \<Rightarrow> 'a"

section \<open>Atomic structures\<close>

text \<open>
  An \<open>ase.Atoms\<close> object, as far as the pipeline reads it: the atomic number and the
  position of every atom, the three lattice vectors of the cell (its rows) and the
  three periodicity flags.
\<close>

type_synonym vec3 = "real \<times> real \<times> real"
type_synonym ivec3 = "int \<times> int \<times> int"
type_synonym cell3 = "vec3 \<times> vec3 \<times> vec3"

record atoms =
  atom_list :: "(nat \<times> vec3) list"
  cell :: cell3
  pbc :: "bool \<times> bool \<times> bool"

definition get_atomic_numbers :: "atoms \<Rightarrow> nat list" where
  "get_atomic_numbers a = map fst (atom_list a)"

definition get_positions :: "atoms \<Rightarrow> vec3 list" where
  "get_positions a = map snd (atom_list a)"

definition len_atoms :: "atoms \<Rightarrow> nat" where
  "len_atoms a = length (atom_list a)"

definition norm3 :: "vec3 \<Rightarrow> real" where
  "norm3 v = (case v of (x, y, z) \<Rightarrow> sqrt (x * x + y * y + z * z))"

text \<open>\<open>atoms.get_cell().lengths()\<close>: the lengths of the three lattice vectors.\<close>

definition lengths :: "cell3 \<Rightarrow> real list" where
  "lengths c = (case c of (a1, a2, a3) \<Rightarrow> [norm3 a1, norm3 a2, norm3 a3])"

text \<open>\<open>np.any\<close> of the three periodicity flags.\<close>

definition np_any :: "bool \<times> bool \<times> bool \<Rightarrow> bool" where
  "np_any flags = (case flags of (x, y, z) \<Rightarrow> x \<or> y \<or> z)"

text \<open>\<open>ase.Atoms(numbers=[0] * num_probes, positions=probe_pos)\<close> and \<open>atoms.extend\<close>.\<close>

definition probe_atoms :: "vec3 list \<Rightarrow> (nat \<times> vec3) list" where
  "probe_atoms probe_pos = map (\<lambda>p. (0, p)) probe_pos"

definition atoms_extend :: "atoms \<Rightarrow> (nat \<times> vec3) list \<Rightarrow> atoms" where
  "atoms_extend a other = a\<lparr>atom_list := atom_list a @ other\<rparr>"

definition vadd :: "vec3 \<Rightarrow> vec3 \<Rightarrow> vec3" where
  "vadd u v = (case (u, v) of ((a, b, c), (x, y, z)) \<Rightarrow> (a + x, b + y, c + z))"

definition vsub :: "vec3 \<Rightarrow> vec3 \<Rightarrow> vec3" where
  "vsub u v = (case (u, v) of ((a, b, c), (x, y, z)) \<Rightarrow> (a - x, b - y, c - z))"

definition scale :: "real \<Rightarrow> vec3 \<Rightarrow> vec3" where
  "scale k v = (case v of (x, y, z) \<Rightarrow> (k * x, k * y, k * z))"

text \<open>\<open>offsets @ self.atoms_cell\<close> for one integer offset: a combination of the rows.\<close>

definition offset_at_cell :: "ivec3 \<Rightarrow> cell3 \<Rightarrow> vec3" where
  "offset_at_cell s c =
     (case (s, c) of ((s1, s2, s3), (a1, a2, a3)) \<Rightarrow>
        vadd (vadd (scale (of_int s1) a1) (scale (of_int s2) a2)) (scale (of_int s3) a3))"

text \<open>\<open>np.sum(np.square(v))\<close> of one relative position.\<close>

definition sum_square :: "vec3 \<Rightarrow> real" where
  "sum_square v = (case v of (x, y, z) \<Rightarrow> x * x + y * y + z * z)"

section \<open>Neighbour indices\<close>

text \<open>
  The answer of an index for one atom or point: the three parallel arrays
  \<open>(indices, rel_positions, dist2)\<close> of the source, as one list of triples.
\<close>

type_synonym neighbors = "(nat \<times> vec3 \<times> real) list"

text \<open>
  The two neighbour lists come from the libraries \<open>asap3\<close> and \<open>ase\<close>, which are
  not part of the repository. They are parameters of the model: an
  \<open>asap3.FullNeighborList\<close> object is the pair of its two query methods, and the
  primitive list of \<open>ase\<close>, once built, answers \<open>get_neighbors(i)\<close> with neighbour
  indices and integer cell offsets. Building either list is taken to succeed; a query
  of the \<open>asap3\<close> list may raise.
\<close>

record asap3_list =
  asap3_get_neighbors :: "nat \<Rightarrow> real \<Rightarrow> error + neighbors"
  get_neighbors_querypoint :: "vec3 list \<Rightarrow> error + neighbors list"

record library =
  asap3_FullNeighborList :: "real \<Rightarrow> atoms \<Rightarrow> asap3_list"
  ase_NewPrimitiveNeighborList ::
    "real \<Rightarrow> bool \<times> bool \<times> bool \<Rightarrow> cell3 \<Rightarrow> vec3 list \<Rightarrow> nat \<Rightarrow> (nat \<times> ivec3) list"

text \<open>The attributes of an \<open>AseNeigborListWrapper\<close> object.\<close>

record wrapper =
  self_neighborlist :: "nat \<Rightarrow> (nat \<times> ivec3) list"
  self_cutoff :: real
  self_atoms_positions :: "vec3 list"
  self_atoms_cell :: cell3

text \<open>The fast index is the \<open>asap3\<close> list, the fallback index is the wrapper.\<close>

datatype neighborlist = Fast asap3_list | Fallback wrapper

text \<open>
  \<open>AseNeigborListWrapper.__init__\<close>: the primitive list is requested with
  \<open>skin=0.0, self_interaction=False, bothways=True\<close> and built on the periodicity
  flags, the cell and the positions of the structure.
\<close>

definition AseNeigborListWrapper :: "library \<Rightarrow> real \<Rightarrow> atoms \<Rightarrow> wrapper" where
  "AseNeigborListWrapper lib cutoff a =
     \<lparr>self_neighborlist =
        ase_NewPrimitiveNeighborList lib cutoff (pbc a) (cell a) (get_positions a),
      self_cutoff = cutoff,
      self_atoms_positions = get_positions a,
      self_atoms_cell = cell a\<rparr>"

text \<open>
  \<open>AseNeigborListWrapper.get_neighbors\<close>. The assertion comes first; indexing the
  position array outside its range raises \<open>IndexError\<close>.
\<close>

definition wrapper_get_neighbors :: "wrapper \<Rightarrow> nat \<Rightarrow> real \<Rightarrow> error + neighbors" where
  "wrapper_get_neighbors self i cutoff =
     (if cutoff \<noteq> self_cutoff self then Inl AssertionError
      else
        let found = self_neighborlist self i;
            positions = self_atoms_positions self
        in if list_ex (\<lambda>(j, s). length positions \<le> j) found \<or> length positions \<le> i
           then Inl IndexError
           else Inr (map (\<lambda>(j, s).
                  let rel = vsub (vadd (positions ! j) (offset_at_cell s (self_atoms_cell self)))
                                 (positions ! i)
                  in (j, rel, sum_square rel)) found))"

text \<open>\<open>neighborlist.get_neighbors(i, cutoff)\<close>, dispatched on the class of the index.\<close>

fun get_neighbors :: "neighborlist \<Rightarrow> nat \<Rightarrow> real \<Rightarrow> error + neighbors" where
  "get_neighbors (Fast l) i cutoff = asap3_get_neighbors l i cutoff"
| "get_neighbors (Fallback w) i cutoff = wrapper_get_neighbors w i cutoff"

section \<open>Arrays\<close>

text \<open>
  A two-dimensional \<open>numpy\<close> array is its number of columns and its rows, so that an
  array without rows still has a width; a one-dimensional array is a list.
\<close>

record 'a array2 =
  ncols :: nat
  rows :: "'a list list"

text \<open>\<open>np.stack((xs, ys), axis=1)\<close> of two one-dimensional arrays of the same length.\<close>

definition np_stack :: "'a list \<Rightarrow> 'a list \<Rightarrow> 'a array2" where
  "np_stack xs ys = \<lparr>ncols = 2, rows = map2 (\<lambda>x y. [x, y]) xs ys\<rparr>"

text \<open>\<open>np.zeros((0, w))\<close> and \<open>x[:, None]\<close> on a one-dimensional array.\<close>

definition np_zeros :: "nat \<Rightarrow> 'a array2" where
  "np_zeros w = \<lparr>ncols = w, rows = []\<rparr>"

definition add_axis :: "'a list \<Rightarrow> 'a array2" where
  "add_axis xs = \<lparr>ncols = 1, rows = map (\<lambda>x. [x]) xs\<rparr>"

text \<open>
  \<open>np.concatenate(arrays, axis=0)\<close>: an empty list of arrays raises \<open>ValueError\<close>
  (\<open>need at least one array to concatenate\<close>), and so do arrays of different widths.
\<close>

fun np_concatenate :: "'a array2 list \<Rightarrow> error + 'a array2" where
  "np_concatenate [] = Inl ValueError"
| "np_concatenate (a # as) =
     (if list_all (\<lambda>b. ncols b = ncols a) as
      then Inr \<lparr>ncols = ncols a, rows = concat (map rows (a # as))\<rparr>
      else Inl ValueError)"

fun np_concatenate1 :: "'a list list \<Rightarrow> error + 'a list" where
  "np_concatenate1 [] = Inl ValueError"
| "np_concatenate1 (a # as) = Inr (concat (a # as))"

section \<open>Graph construction\<close>

text \<open>
  \<open>atoms_to_graph\<close>, the step \<open>Compute neighborlist\<close>: the fallback index when a
  lattice vector is at most \<open>0.0001\<close> long, or when a periodicity flag is set and a
  lattice vector is shorter than the cutoff; the fast index otherwise.
\<close>

definition atoms_to_graph_neighborlist :: "library \<Rightarrow> atoms \<Rightarrow> real \<Rightarrow> neighborlist" where
  "atoms_to_graph_neighborlist lib a cutoff =
     (if list_ex (\<lambda>l. l \<le> 0.0001) (lengths (cell a))
         \<or> (np_any (pbc a) \<and> list_ex (\<lambda>l. l < cutoff) (lengths (cell a)))
      then Fallback (AseNeigborListWrapper lib cutoff a)
      else Fast (asap3_FullNeighborList lib cutoff a))"

text \<open>
  The body of the loop of \<open>atoms_to_graph\<close> for atom \<open>i\<close>: the rows \<open>(neighbour, i)\<close>
  and the distances. \<open>atomic_numbers[neigh_idx]\<close> is computed and not used: it raises
  for a neighbour index outside the structure.
\<close>

definition atom_edges_of ::
  "neighborlist \<Rightarrow> nat list \<Rightarrow> real \<Rightarrow> nat \<Rightarrow> error + (nat array2 \<times> real list)" where
  "atom_edges_of nl atomic_numbers cutoff i =
     (case get_neighbors nl i cutoff of
        Inl e \<Rightarrow> Inl e
      | Inr found \<Rightarrow>
          let neigh_idx = map fst found;
              neigh_dist = map (\<lambda>(j, rel, dist2). sqrt dist2) found
          in if list_ex (\<lambda>j. length atomic_numbers \<le> j) neigh_idx then Inl IndexError
             else Inr (np_stack neigh_idx (map (\<lambda>j. i) neigh_idx), neigh_dist))"

definition atoms_to_graph ::
  "library \<Rightarrow> atoms \<Rightarrow> real \<Rightarrow> error + (nat array2 list \<times> real list list \<times> neighborlist)" where
  "atoms_to_graph lib a cutoff =
     (let nl = atoms_to_graph_neighborlist lib a cutoff;
          atomic_numbers = get_atomic_numbers a
      in case map_result (atom_edges_of nl atomic_numbers cutoff) [0..<len_atoms a] of
           Inl e \<Rightarrow> Inl e
         | Inr per_atom \<Rightarrow> Inr (map fst per_atom, map snd per_atom, nl))"

text \<open>
  \<open>probes_to_graph\<close>, the choice of the index in the branch that inserts the probes as
  atoms of number 0: the condition reads the cell and the flags of the structure
  without the probes, the index is built on the structure with them.
\<close>

definition probes_to_graph_neighborlist ::
  "library \<Rightarrow> atoms \<Rightarrow> atoms \<Rightarrow> real \<Rightarrow> neighborlist" where
  "probes_to_graph_neighborlist lib a atoms_with_probes cutoff =
     (if list_ex (\<lambda>l. l \<le> 0.0001) (lengths (cell a))
         \<or> (np_any (pbc a) \<and> list_ex (\<lambda>l. l < cutoff) (lengths (cell a)))
      then Fallback (AseNeigborListWrapper lib cutoff atoms_with_probes)
      else Fast (asap3_FullNeighborList lib cutoff atoms_with_probes))"

text \<open>
  The body of the last loop of \<open>probes_to_graph\<close> for probe \<open>i\<close> of the enumeration:
  the neighbours whose atomic number is not 0, as rows \<open>(atom, i)\<close> with their distances.
\<close>

definition probe_edges_of ::
  "nat list \<Rightarrow> nat \<times> neighbors \<Rightarrow> error + (nat array2 \<times> real list)" where
  "probe_edges_of atomic_numbers ir =
     (case ir of (i, found) \<Rightarrow>
        if list_ex (\<lambda>(j, rel, dist2). length atomic_numbers \<le> j) found then Inl IndexError
        else
          let neigh_is_atom = filter (\<lambda>(j, rel, dist2). atomic_numbers ! j \<noteq> 0) found;
              neigh_atoms = map fst neigh_is_atom
          in Inr (np_stack neigh_atoms (map (\<lambda>j. i) neigh_atoms),
                  map (\<lambda>(j, rel, dist2). sqrt dist2) neigh_is_atom))"

text \<open>
  \<open>hasattr(neighborlist, "get_neighbors_querypoint")\<close>: only the \<open>asap3\<close> list has the
  method; the wrapper and \<open>None\<close> have not.
\<close>

definition hasattr_get_neighbors_querypoint :: "neighborlist option \<Rightarrow> asap3_list option" where
  "hasattr_get_neighbors_querypoint nl =
     (case nl of Some (Fast l) \<Rightarrow> Some l | Some (Fallback w) \<Rightarrow> None | None \<Rightarrow> None)"

definition probes_to_graph ::
  "library \<Rightarrow> atoms \<Rightarrow> vec3 list \<Rightarrow> real \<Rightarrow> neighborlist option
     \<Rightarrow> error + (nat array2 list \<times> real list list)" where
  "probes_to_graph lib a probe_pos cutoff nl =
     (case
        (case hasattr_get_neighbors_querypoint nl of
           Some l \<Rightarrow>
             (case get_neighbors_querypoint l probe_pos of
                Inl e \<Rightarrow> Inl e
              | Inr results \<Rightarrow> Inr (results, get_atomic_numbers a))
         | None \<Rightarrow>
             let num_probes = length probe_pos;
                 atoms_with_probes = atoms_extend a (probe_atoms probe_pos);
                 nl' = probes_to_graph_neighborlist lib a atoms_with_probes cutoff
             in (case map_result (\<lambda>i. get_neighbors nl' (i + len_atoms a) cutoff)
                        [0..<num_probes] of
                   Inl e \<Rightarrow> Inl e
                 | Inr results \<Rightarrow> Inr (results, get_atomic_numbers atoms_with_probes)))
      of
        Inl e \<Rightarrow> Inl e
      | Inr (results, atomic_numbers) \<Rightarrow>
          (case map_result (probe_edges_of atomic_numbers) (enumerate 0 results) of
             Inl e \<Rightarrow> Inl e
           | Inr per_probe \<Rightarrow> Inr (map fst per_probe, map snd per_probe)))"

section \<open>Grid slices and training samples\<close>

text \<open>
  The dictionary returned by \<open>static_get_slice\<close>, and the one returned by
  \<open>atoms_and_probe_sample_to_graph_dict\<close>, which has the same four keys and six more.
\<close>

record slice_dict =
  probe_edges :: "nat array2"
  probe_edges_features :: "real array2"
  num_probe_edges :: nat
  num_probes :: nat

record graph_dict = slice_dict +
  nodes :: "nat list"
  atom_edges :: "nat array2"
  atom_edges_features :: "real array2"
  probe_target :: "real list"
  num_nodes :: nat
  num_atom_edges :: nat

text \<open>
  \<open>if not probe_edges: ...\<close>: the test is on the list of per-probe arrays, which is
  empty exactly when there is no probe. (\<open>np.int\<close> is the builtin \<open>int\<close> of the
  \<open>numpy\<close> releases the code was written for.)
\<close>

definition placeholder_if_empty ::
  "nat array2 list \<times> real list list \<Rightarrow> nat array2 list \<times> real list list" where
  "placeholder_if_empty p =
     (case p of (p_edges, p_features) \<Rightarrow>
        if p_edges = [] then ([np_zeros 2], [[]]) else (p_edges, p_features))"

text \<open>
  \<open>DensityGridIterator.static_get_slice\<close>. The conversion \<open>astype(np.float32)\<close> is
  not modelled: features are reals.
\<close>

definition static_get_slice ::
  "library \<Rightarrow> nat \<Rightarrow> atoms \<Rightarrow> vec3 grid \<Rightarrow> nat \<Rightarrow> real \<Rightarrow> neighborlist option
     \<Rightarrow> error + slice_dict" where
  "static_get_slice lib slice_index a meshgrid probe_count cutoff nl =
     (let flat = flat_index slice_index probe_count (grid_shape meshgrid)
      in case map_result (\<lambda>f. unravel_index f (grid_shape meshgrid)) flat of
           Inl e \<Rightarrow> Inl e
         | Inr pos_index \<Rightarrow>
             (case probes_to_graph lib a (map (grid_at meshgrid) pos_index) cutoff nl of
                Inl e \<Rightarrow> Inl e
              | Inr p \<Rightarrow>
                  (case placeholder_if_empty p of (p_edges, p_features) \<Rightarrow>
                     (case np_concatenate p_edges of
                        Inl e \<Rightarrow> Inl e
                      | Inr pe \<Rightarrow>
                          (case np_concatenate1 p_features of
                             Inl e \<Rightarrow> Inl e
                           | Inr pf \<Rightarrow>
                               Inr \<lparr>probe_edges = pe,
                                    probe_edges_features = add_axis pf,
                                    num_probe_edges = length (rows pe),
                                    num_probes = length flat\<rparr>)))))"

text \<open>
  \<open>atoms_and_probe_sample_to_graph_dict\<close>. The random draw
  \<open>np.random.randint(probe_choice_max, size=num_probes)\<close> is the argument
  \<open>probe_choice\<close>: a list of \<open>num_probes\<close> flat grid indices. Only the probe edges get
  a placeholder; the atom edges are concatenated as \<open>atoms_to_graph\<close> returns them.
\<close>

definition atoms_and_probe_sample_to_graph_dict ::
  "library \<Rightarrow> nat list \<Rightarrow> real grid \<Rightarrow> atoms \<Rightarrow> vec3 grid \<Rightarrow> real \<Rightarrow> error + graph_dict" where
  "atoms_and_probe_sample_to_graph_dict lib probe_choice density a grid_pos cutoff =
     (case map_result (\<lambda>f. unravel_index f (grid_shape grid_pos)) probe_choice of
        Inl e \<Rightarrow> Inl e
      | Inr choice \<Rightarrow>
          (case atoms_to_graph lib a cutoff of
             Inl e \<Rightarrow> Inl e
           | Inr (a_edges, a_features, nl) \<Rightarrow>
               (case probes_to_graph lib a (map (grid_at grid_pos) choice) cutoff (Some nl) of
                  Inl e \<Rightarrow> Inl e
                | Inr p \<Rightarrow>
                    (case placeholder_if_empty p of (p_edges, p_features) \<Rightarrow>
                       (case np_concatenate a_edges of
                          Inl e \<Rightarrow> Inl e
                        | Inr ae \<Rightarrow>
                       (case np_concatenate1 a_features of
                          Inl e \<Rightarrow> Inl e
                        | Inr af \<Rightarrow>
                       (case np_concatenate p_edges of
                          Inl e \<Rightarrow> Inl e
                        | Inr pe \<Rightarrow>
                       (case np_concatenate1 p_features of
                          Inl e \<Rightarrow> Inl e
                        | Inr pf \<Rightarrow>
                            Inr \<lparr>probe_edges = pe,
                                 probe_edges_features = add_axis pf,
                                 num_probe_edges = length (rows pe),
                                 num_probes = length choice,
                                 nodes = get_atomic_numbers a,
                                 atom_edges = ae,
                                 atom_edges_features = add_axis af,
                                 probe_target = map (grid_at density) choice,
                                 num_nodes = length (get_atomic_numbers a),
                                 num_atom_edges = length (rows ae)\<rparr>))))))))"

section \<open>The ordered consumer of grid slices\<close>

text \<open>
  The state of a \<open>DensityGridIterator\<close> between two calls of \<open>__next__\<close>. The result
  channel is the sequence of pairs \<open>(slice_index, result)\<close> in the order in which the
  workers deliver them; \<open>finished_slices\<close> is the dictionary of pending results.
\<close>

record ('r, 't) grid_iterator =
  num_slices_of :: nat
  current_slice :: nat
  finished_slices :: "nat \<rightharpoonup> 't"
  result_queue :: "(nat \<times> 'r) list"

text \<open>\<open>__iter__\<close>, with the deliveries of the workers as an argument.\<close>

definition iter :: "nat \<Rightarrow> (nat \<times> 'r) list \<Rightarrow> ('r, 't) grid_iterator" where
  "iter n arrivals =
     \<lparr>num_slices_of = n, current_slice = 0, finished_slices = Map.empty,
      result_queue = arrivals\<rparr>"

text \<open>
  The loop \<open>while this_slice not in self.finished_slices\<close>. \<open>Queue.get\<close> waits for a
  delivery: when none is left the call never returns, which is the value \<open>None\<close>.
  \<open>to_tensor\<close> is the conversion of a result to tensors.
\<close>

fun retrieve ::
  "('r \<Rightarrow> 't) \<Rightarrow> nat \<Rightarrow> (nat \<rightharpoonup> 't) \<Rightarrow> (nat \<times> 'r) list
     \<Rightarrow> ((nat \<rightharpoonup> 't) \<times> (nat \<times> 'r) list) option" where
  "retrieve to_tensor this_slice fin [] =
     (if fin this_slice \<noteq> None then Some (fin, []) else None)"
| "retrieve to_tensor this_slice fin ((i, res) # q) =
     (if fin this_slice \<noteq> None then Some (fin, (i, res) # q)
      else retrieve to_tensor this_slice (fin(i \<mapsto> to_tensor res)) q)"

text \<open>
  \<open>__next__\<close>: \<open>None\<close> when the call never returns, \<open>Inl\<close> for an exception, \<open>Inr\<close>
  for the slice returned together with the next state. \<open>dict.pop\<close> returns the entry
  and removes it. (Joining the workers before \<open>StopIteration\<close> is not modelled.)
\<close>

definition next_slice ::
  "('r \<Rightarrow> 't) \<Rightarrow> ('r, 't) grid_iterator
     \<Rightarrow> (error + 't \<times> ('r, 't) grid_iterator) option" where
  "next_slice to_tensor s =
     (if current_slice s < num_slices_of s then
        let this_slice = current_slice s;
            s1 = s\<lparr>current_slice := current_slice s + 1\<rparr>
        in (case retrieve to_tensor this_slice (finished_slices s1) (result_queue s1) of
              None \<Rightarrow> None
            | Some (fin, q) \<Rightarrow>
                (case fin this_slice of
                   None \<Rightarrow> Some (Inl KeyError)
                 | Some v \<Rightarrow>
                     Some (Inr (v, s1\<lparr>finished_slices := fin(this_slice := None),
                                     result_queue := q\<rparr>))))
      else Some (Inl StopIteration))"

lemma next_slice_measure:
  "next_slice to_tensor s = Some (Inr (v, s')) \<Longrightarrow>
     num_slices_of s' - current_slice s' < num_slices_of s - current_slice s"
  by (auto simp: next_slice_def Let_def split: if_splits option.splits prod.splits)

text \<open>
  A \<open>for\<close> loop over the iterator: \<open>__next__\<close> until \<open>StopIteration\<close>, collecting what
  it returns.
\<close>

function consume ::
  "('r \<Rightarrow> 't) \<Rightarrow> ('r, 't) grid_iterator
     \<Rightarrow> (error + 't list \<times> ('r, 't) grid_iterator) option" where
  "consume to_tensor s =
     (case next_slice to_tensor s of
        None \<Rightarrow> None
      | Some (Inl e) \<Rightarrow> (if e = StopIteration then Some (Inr ([], s)) else Some (Inl e))
      | Some (Inr (v, s')) \<Rightarrow>
          (case consume to_tensor s' of
             None \<Rightarrow> None
           | Some (Inl e) \<Rightarrow> Some (Inl e)
           | Some (Inr (vs, s'')) \<Rightarrow> Some (Inr (v # vs, s''))))"
  by pat_completeness auto
termination
  by (relation "measure (\<lambda>(c, s). num_slices_of s - current_slice s)")
     (auto dest: next_slice_measure)

section \<open>The rotating pool\<close>

text \<open>
  A \<open>RotatingPoolData\<close> object together with its loader process and its transfer
  thread. The parent dataset is a list of samples. \<open>loader_queue\<close> is the content of
  the queue of capacity 2, \<open>pending_permutation\<close> is what is left of the permutation
  the loader process iterates over, and \<open>transfer_index\<close> is the slot the transfer
  thread writes next.
\<close>

record 'a rotating_pool =
  pool_size :: nat
  data_pool :: "'a list"
  loader_queue :: "'a list"
  pending_permutation :: "nat list"
  transfer_index :: nat

text \<open>
  \<open>__init__\<close>. The draw \<open>rng.integers(0, high=len(parent_data), size=pool_size)\<close> is
  the argument \<open>draws\<close>; the list comprehension loads one sample for every index
  drawn, and only then are the queue, the process and the thread created.
\<close>

definition RotatingPoolData ::
  "'a list \<Rightarrow> nat \<Rightarrow> nat list \<Rightarrow> error + 'a rotating_pool" where
  "RotatingPoolData parent_data capacity draws =
     (case map_result
             (\<lambda>i. if i < length parent_data then Inr (parent_data ! i) else Inl IndexError)
             draws of
        Inl e \<Rightarrow> Inl e
      | Inr loaded \<Rightarrow>
          Inr \<lparr>pool_size = capacity, data_pool = loaded, loader_queue = [],
               pending_permutation = [], transfer_index = 0\<rparr>)"

text \<open>
  The atomic actions of the two background loops. The loader draws a permutation of
  all indices when it has finished the last one, and puts the sample of the next
  index when the queue holds fewer than 2 items. The transfer thread takes an item
  when there is one and writes it into the slot of its running index, which goes
  round the pool. An action that is not enabled is \<open>None\<close>.
\<close>

datatype event = Loader_permutation "nat list" | Loader_put | Transfer_get

fun step :: "'a list \<Rightarrow> event \<Rightarrow> 'a rotating_pool \<Rightarrow> 'a rotating_pool option" where
  "step parent_data (Loader_permutation p) s =
     (if pending_permutation s = [] \<and> mset p = mset [0..<length parent_data]
      then Some (s\<lparr>pending_permutation := p\<rparr>) else None)"
| "step parent_data Loader_put s =
     (case pending_permutation s of
        [] \<Rightarrow> None
      | i # rest \<Rightarrow>
          if length (loader_queue s) < 2 \<and> i < length parent_data
          then Some (s\<lparr>loader_queue := loader_queue s @ [parent_data ! i],
                       pending_permutation := rest\<rparr>)
          else None)"
| "step parent_data Transfer_get s =
     (case loader_queue s of
        [] \<Rightarrow> None
      | x # q \<Rightarrow>
          if transfer_index s < length (data_pool s)
          then Some (s\<lparr>data_pool := (data_pool s)[transfer_index s := x],
                       loader_queue := q,
                       transfer_index := (transfer_index s + 1) mod length (data_pool s)\<rparr>)
          else None)"

text \<open>A schedule is a list of actions; it runs as long as its actions are enabled.\<close>

fun run :: "'a list \<Rightarrow> event list \<Rightarrow> 'a rotating_pool \<Rightarrow> 'a rotating_pool option" where
  "run parent_data [] s = Some s"
| "run parent_data (ev # evs) s =
     (case step parent_data ev s of None \<Rightarrow> None | Some s' \<Rightarrow> run parent_data evs s')"

text \<open>\<open>__len__\<close> and \<open>__getitem__\<close> (for a non-negative index).\<close>

definition len_pool :: "'a rotating_pool \<Rightarrow> nat" where
  "len_pool s = pool_size s"

definition getitem :: "'a rotating_pool \<Rightarrow> nat \<Rightarrow> error + 'a" where
  "getitem s index =
     (if index < length (data_pool s) then Inr (data_pool s ! index) else Inl IndexError)"

section \<open>The collator\<close>

text \<open>
  A graph is a dictionary from field names to tensors; the dictionary keeps the order
  in which its keys were inserted, so it is a list of pairs, looked up with \<open>map_of\<close>.
\<close>

type_synonym 't dict = "(string \<times> 't) list"

definition getitem_dict :: "'t dict \<Rightarrow> string \<Rightarrow> error + 't" where
  "getitem_dict dic k = (case map_of dic k of None \<Rightarrow> Inl KeyError | Some v \<Rightarrow> Inr v)"

text \<open>
  The first statement of \<open>collate_list_of_dicts\<close>: for every key of the first
  dictionary, the values of that key in all dictionaries.
\<close>

definition dict_of_lists :: "'t dict list \<Rightarrow> error + ('t list) dict" where
  "dict_of_lists list_of_dicts =
     (case list_of_dicts of
        [] \<Rightarrow> Inl IndexError
      | first # _ \<Rightarrow>
          map_result
            (\<lambda>k. case map_result (\<lambda>dic. getitem_dict dic k) list_of_dicts of
                    Inl e \<Rightarrow> Inl e
                  | Inr vs \<Rightarrow> Inr (k, vs))
            (map fst first))"

text \<open>
  \<open>collate_list_of_dicts\<close>. \<open>pad_and_stack\<close> is defined in \<open>deepdft/layer.py\<close>, which
  is not among the sources: it is a parameter, applied to the values of one key at a
  time. Pinning memory does not change a tensor.
\<close>

definition collate_list_of_dicts ::
  "('t list \<Rightarrow> error + 't) \<Rightarrow> 't dict list \<Rightarrow> bool \<Rightarrow> error + 't dict" where
  "collate_list_of_dicts pad_and_stack list_of_dicts pin_memory =
     (case dict_of_lists list_of_dicts of
        Inl e \<Rightarrow> Inl e
      | Inr dol \<Rightarrow>
          let pin = (if pin_memory then (\<lambda>x. x) else (\<lambda>x. x))
          in map_result
               (\<lambda>(k, vs). case pad_and_stack vs of Inl e \<Rightarrow> Inl e | Inr t \<Rightarrow> Inr (k, pin t))
               dol)"

text \<open>
  A tensor is a number (a tensor without axes) or the sequence of its sub-tensors
  along the first axis.
\<close>

datatype 'a tensor = Scalar 'a | Seq "'a tensor list"

fun is_scalar :: "'a tensor \<Rightarrow> bool" where
  "is_scalar (Scalar x) = True"
| "is_scalar (Seq ts) = False"

fun items :: "'a tensor \<Rightarrow> 'a tensor list" where
  "items (Scalar x) = []"
| "items (Seq ts) = ts"

text \<open>
  Modelled from the spec: \<open>pad_and_stack\<close> of \<open>deepdft/layer.py\<close> is missing from the
  sources. The collator "for fields that are per-sample scalars (counts) stacks them
  into a single sequence; for fields that are ragged 2D arrays (edges, features, node
  species) concatenates along the row axis". It sees the values of one field only.
\<close>

definition pad_and_stack :: "'a tensor list \<Rightarrow> error + 'a tensor" where
  "pad_and_stack tensors =
     (case tensors of
        [] \<Rightarrow> Inl IndexError
      | t # _ \<Rightarrow>
          if list_all is_scalar tensors then Inr (Seq tensors)
          else if list_all (\<lambda>u. \<not> is_scalar u) tensors then Inr (Seq (concat (map items tensors)))
          else Inl RuntimeError)"

text \<open>
  What the specification asks of the edge-index fields of a batch, in its own words:
  "adding a running offset equal to the cumulative node count of all previously
  concatenated samples". \<open>add_offset\<close> adds a number to every index of a tensor;
  \<open>offset_concat\<close> takes the node counts and the edge arrays of the samples.
\<close>

fun add_offset :: "int \<Rightarrow> int tensor \<Rightarrow> int tensor" where
  "add_offset k (Scalar x) = Scalar (x + k)"
| "add_offset k (Seq ts) = Seq (map (add_offset k) ts)"

fun offset_rows :: "int \<Rightarrow> (int \<times> int tensor) list \<Rightarrow> int tensor list" where
  "offset_rows k [] = []"
| "offset_rows k ((n, edges) # rest) =
     items (add_offset k edges) @ offset_rows (k + n) rest"

definition offset_concat :: "int list \<Rightarrow> int tensor list \<Rightarrow> int tensor" where
  "offset_concat node_counts edge_arrays = Seq (offset_rows 0 (zip node_counts edge_arrays))"

section \<open>Example structures\<close>

text \<open>
  The two-atom structure of the specification's scenario (atoms at the origin and at
  \<open>(1, 0, 0)\<close>, no cell, not periodic), the same two atoms in a periodic box of side
  10, and a structure without atoms.
\<close>

definition two_atoms :: atoms where
  "two_atoms =
     \<lparr>atom_list = [(1, (0, 0, 0)), (1, (1, 0, 0))],
      cell = ((0, 0, 0), (0, 0, 0), (0, 0, 0)),
      pbc = (False, False, False)\<rparr>"

definition two_atoms_in_box :: atoms where
  "two_atoms_in_box =
     \<lparr>atom_list = [(1, (0, 0, 0)), (1, (1, 0, 0))],
      cell = ((10, 0, 0), (0, 10, 0), (0, 0, 10)),
      pbc = (True, True, True)\<rparr>"

definition no_atoms :: atoms where
  "no_atoms =
     \<lparr>atom_list = [],
      cell = ((0, 0, 0), (0, 0, 0), (0, 0, 0)),
      pbc = (False, False, False)\<rparr>"

text \<open>
  A stand-in for the two libraries, used in the examples only: it searches all
  positions for those closer than the cutoff to a point and knows no periodic images.
\<close>

definition closer_than :: "real \<Rightarrow> vec3 list \<Rightarrow> vec3 \<Rightarrow> nat list" where
  "closer_than cutoff positions p =
     filter (\<lambda>j. sum_square (vsub (positions ! j) p) < cutoff * cutoff) [0..<length positions]"

definition found_at :: "vec3 list \<Rightarrow> vec3 \<Rightarrow> nat list \<Rightarrow> neighbors" where
  "found_at positions p js =
     map (\<lambda>j. (j, vsub (positions ! j) p, sum_square (vsub (positions ! j) p))) js"

definition reference_library :: library where
  "reference_library =
     \<lparr>asap3_FullNeighborList = (\<lambda>cutoff a.
        \<lparr>asap3_get_neighbors = (\<lambda>i c.
           if i < len_atoms a
           then Inr (found_at (get_positions a) (get_positions a ! i)
                       (filter (\<lambda>j. j \<noteq> i)
                          (closer_than cutoff (get_positions a) (get_positions a ! i))))
           else Inl IndexError),
         get_neighbors_querypoint = (\<lambda>points.
           Inr (map (\<lambda>p. found_at (get_positions a) p (closer_than cutoff (get_positions a) p))
                  points))\<rparr>),
      ase_NewPrimitiveNeighborList = (\<lambda>cutoff flags c positions i.
        if i < length positions
        then map (\<lambda>j. (j, (0, 0, 0)))
               (filter (\<lambda>j. j \<noteq> i) (closer_than cutoff positions (positions ! i)))
        else [])\<rparr>"

text \<open>A grid of one point at the origin, and a density of value 1 on it.\<close>

definition one_point_grid :: "vec3 grid" where
  "one_point_grid = \<lparr>grid_shape = (1, 1, 1), grid_at = (\<lambda>p. (0, 0, 0))\<rparr>"

definition one_point_density :: "real grid" where
  "one_point_density = \<lparr>grid_shape = (1, 1, 1), grid_at = (\<lambda>p. 1)\<rparr>"

text \<open>
  Graphs as the collator receives them: the two-atom graph with its node species, its
  two atom edges and its node count, and two graphs of one atom, one of them without
  the field of the node count.
\<close>

definition two_atom_graph :: "int tensor dict" where
  "two_atom_graph =
     [(''nodes'', Seq [Scalar 1, Scalar 1]),
      (''atom_edges'', Seq [Seq [Scalar 1, Scalar 0], Seq [Scalar 0, Scalar 1]]),
      (''num_nodes'', Scalar 2)]"

definition graph_without_count :: "int tensor dict" where
  "graph_without_count = [(''nodes'', Seq [Scalar 1])]"

definition graph_with_count :: "int tensor dict" where
  "graph_with_count = [(''nodes'', Seq [Scalar 6]), (''num_nodes'', Scalar 1)]"

section \<open>Notions used in the statements\<close>

text \<open>
  The edges of a graph as the dictionaries hold them: the rows of the concatenated
  edge arrays, each with its feature from the concatenated feature arrays.
\<close>

definition edge_list :: "'a array2 list \<Rightarrow> 'b list list \<Rightarrow> ('a list \<times> 'b) list" where
  "edge_list edges features = zip (concat (map rows edges)) (concat features)"

text \<open>
  What is pending for a slice index is its entry in \<open>finished_slices\<close> or, failing
  that, its delivery still in the channel. While the loop of \<open>__next__\<close> moves
  deliveries into the dictionary, the pending results, the set of pending indices and
  the absence of an index that is pending twice are preserved.
\<close>

definition pending :: "('r \<Rightarrow> 't) \<Rightarrow> (nat \<rightharpoonup> 't) \<Rightarrow> (nat \<times> 'r) list \<Rightarrow> nat \<rightharpoonup> 't" where
  "pending to_tensor fin q k =
     (case fin k of Some v \<Rightarrow> Some v | None \<Rightarrow> map_option to_tensor (map_of q k))"

definition pending_keys :: "(nat \<rightharpoonup> 't) \<Rightarrow> (nat \<times> 'r) list \<Rightarrow> nat set" where
  "pending_keys fin q = dom fin \<union> fst ` set q"

definition pending_once :: "(nat \<rightharpoonup> 't) \<Rightarrow> (nat \<times> 'r) list \<Rightarrow> bool" where
  "pending_once fin q \<longleftrightarrow> distinct (map fst q) \<and> dom fin \<inter> fst ` set q = {}"

text \<open>
  The invariant of the pool: it has as many slots as its size says, and every slot and
  every item of the queue holds a sample of the parent dataset.
\<close>

definition pool_inv :: "'a list \<Rightarrow> nat \<Rightarrow> 'a rotating_pool \<Rightarrow> bool" where
  "pool_inv parent_data capacity s \<longleftrightarrow>
     pool_size s = capacity \<and> length (data_pool s) = capacity
     \<and> set (data_pool s) \<subseteq> set parent_data
     \<and> set (loader_queue s) \<subseteq> set parent_data"

text \<open>Which of the two indices a neighbour list is.\<close>

fun is_fallback :: "neighborlist \<Rightarrow> bool" where
  "is_fallback (Fallback w) = True"
| "is_fallback (Fast l) = False"

text \<open>
  The selection rule in the words of the specification: the fallback is used when
  some lattice vector has length at most \<open>1e-4\<close>, or when some periodicity flag is
  set and some lattice vector is shorter than the cutoff.
\<close>

definition selects_fallback :: "atoms \<Rightarrow> real \<Rightarrow> bool" where
  "selects_fallback a cutoff \<longleftrightarrow>
     (case (cell a, pbc a) of ((a1, a2, a3), (px, py, pz)) \<Rightarrow>
        (norm3 a1 \<le> 1 / 10000 \<or> norm3 a2 \<le> 1 / 10000 \<or> norm3 a3 \<le> 1 / 10000)
        \<or> ((px \<or> py \<or> pz)
            \<and> (norm3 a1 < cutoff \<or> norm3 a2 < cutoff \<or> norm3 a3 < cutoff)))"

text \<open>
  What \<open>probes_to_graph\<close> needs from an index that it queries by points: one answer
  for every query point.
\<close>

definition answers_every_point :: "neighborlist option \<Rightarrow> vec3 list \<Rightarrow> bool" where
  "answers_every_point nl probe_pos \<longleftrightarrow>
     (\<forall>l results. hasattr_get_neighbors_querypoint nl = Some l \<longrightarrow>
        get_neighbors_querypoint l probe_pos = Inr results \<longrightarrow>
        length results = length probe_pos)"

text \<open>
  What the flags \<open>bothways=True\<close> and \<open>self_interaction=False\<close> ask of an index over
  \<open>n\<close> atoms. At the level of its answers: whenever atom \<open>j\<close> is listed for atom \<open>i\<close>
  with a squared distance, atom \<open>i\<close> is listed for atom \<open>j\<close> with the same squared
  distance, and no atom is listed for itself.
\<close>

definition lists_both_ways :: "neighborlist \<Rightarrow> real \<Rightarrow> nat \<Rightarrow> bool" where
  "lists_both_ways nl cutoff n \<longleftrightarrow>
     (\<forall>i<n. \<forall>found. get_neighbors nl i cutoff = Inr found \<longrightarrow>
        (\<forall>(j, rel, d2)\<in>set found.
           \<exists>found' rel'. get_neighbors nl j cutoff = Inr found' \<and> (i, rel', d2) \<in> set found'))"

definition no_self_interaction :: "neighborlist \<Rightarrow> real \<Rightarrow> nat \<Rightarrow> bool" where
  "no_self_interaction nl cutoff n \<longleftrightarrow>
     (\<forall>i<n. \<forall>found. get_neighbors nl i cutoff = Inr found \<longrightarrow>
        (\<forall>(j, rel, d2)\<in>set found. j \<noteq> i))"

text \<open>
  For the primitive list of \<open>ase\<close> the same is said of its pairs of a neighbour
  index and a cell offset: the pair \<open>(j, s)\<close> listed for \<open>i\<close> comes with the pair
  \<open>(i, - s)\<close> listed for \<open>j\<close>.
\<close>

definition primitive_both_ways :: "(nat \<Rightarrow> (nat \<times> ivec3) list) \<Rightarrow> nat \<Rightarrow> bool" where
  "primitive_both_ways found_of n \<longleftrightarrow>
     (\<forall>i<n. \<forall>(j, (s1, s2, s3))\<in>set (found_of i).
        j < n \<and> (i, (- s1, - s2, - s3)) \<in> set (found_of j))"

text \<open>
  The contract of the index that \<open>atoms_to_graph\<close> has chosen: for the fast index it
  is about the answers of \<open>asap3\<close>; for the fallback index it is about the pairs of
  the primitive list only, the distances being computed by the wrapper.
\<close>

definition honours_flags :: "neighborlist \<Rightarrow> real \<Rightarrow> nat \<Rightarrow> bool" where
  "honours_flags nl cutoff n \<longleftrightarrow>
     (case nl of
        Fast l \<Rightarrow> lists_both_ways (Fast l) cutoff n \<and> no_self_interaction (Fast l) cutoff n
      | Fallback w \<Rightarrow>
          primitive_both_ways (self_neighborlist w) n
          \<and> (\<forall>i<n. \<forall>(j, s)\<in>set (self_neighborlist w i). j \<noteq> i))"

text \<open>
  The probe positions of a list of flat grid indices that are all inside the grid.
\<close>

definition positions_at :: "'a grid \<Rightarrow> nat list \<Rightarrow> 'a list" where
  "positions_at g fs = map (\<lambda>f. grid_at g (projr (unravel_index f (grid_shape g)))) fs"

text \<open>
  The values of one field in all graphs of the list, in the order of the list, for
  graphs that all have the field.
\<close>

definition field_values :: "'t dict list \<Rightarrow> string \<Rightarrow> 't list" where
  "field_values list_of_dicts k = map (\<lambda>dic. the (map_of dic k)) list_of_dicts"

section \<open>Loops that can raise\<close>

text \<open>
  A loop returns exactly when its body returns for every element, and it then returns
  the results in order; it raises only what its body raises for some element.
\<close>

lemma map_result_Inr_iff:
  "map_result f xs = Inr ys \<longleftrightarrow> list_all2 (\<lambda>x y. f x = Inr y) xs ys"
proof (induction xs arbitrary: ys)
  case Nil
  show ?case by auto
next
  case (Cons x xs)
  show ?case
  proof (cases "f x")
    case (Inl e)
    then show ?thesis by (auto simp: list_all2_Cons1)
  next
    case (Inr y)
    then show ?thesis
      using Cons.IH by (cases "map_result f xs") (auto simp: list_all2_Cons1)
  qed
qed

lemma map_result_Inr_each:
  assumes "map_result f xs = Inr ys" "x \<in> set xs"
  shows "\<exists>y. f x = Inr y"
  using assms
  by (induction xs arbitrary: ys) (auto split: sum.splits)

lemma map_result_Inl:
  assumes "map_result f xs = Inl e"
  shows "\<exists>x\<in>set xs. f x = Inl e"
  using assms
  by (induction xs) (auto split: sum.splits)

lemma map_result_Inr_map:
  assumes "\<forall>x\<in>set xs. \<exists>y. f x = Inr y"
  shows "map_result f xs = Inr (map (\<lambda>x. projr (f x)) xs)"
  using assms by (induction xs) auto

section \<open>What the graph builders return\<close>

lemma zip_concat:
  assumes "list_all2 (\<lambda>a b. length a = length b) as bs"
  shows "zip (concat as) (concat bs) = concat (map (\<lambda>(a, b). zip a b) (zip as bs))"
  using assms by (induction rule: list_all2_induct) auto

lemma in_edge_list:
  assumes "list_all2 (\<lambda>a b. length (rows a) = length b) edges features"
  shows "x \<in> set (edge_list edges features)
           \<longleftrightarrow> (\<exists>k<length edges. x \<in> set (zip (rows (edges ! k)) (features ! k)))"
proof -
  have l: "length edges = length features" using assms by (rule list_all2_lengthD)
  have "list_all2 (\<lambda>a b. length a = length b) (map rows edges) features"
    using assms by (simp add: list_all2_map1)
  then have "edge_list edges features
      = concat (map (\<lambda>(a, b). zip a b) (zip (map rows edges) features))"
    unfolding edge_list_def by (rule zip_concat)
  then have "x \<in> set (edge_list edges features)
      \<longleftrightarrow> (\<exists>p\<in>set (zip (map rows edges) features). x \<in> set (zip (fst p) (snd p)))"
    by (auto simp: case_prod_beta)
  also have "\<dots> \<longleftrightarrow> (\<exists>k<length edges. x \<in> set (zip (rows (edges ! k)) (features ! k)))"
  proof
    assume "\<exists>p\<in>set (zip (map rows edges) features). x \<in> set (zip (fst p) (snd p))"
    then obtain p where p: "p \<in> set (zip (map rows edges) features)"
      and x: "x \<in> set (zip (fst p) (snd p))" by blast
    from p obtain k where "k < length edges" "p = (rows (edges ! k), features ! k)"
      using l by (auto simp: in_set_conv_nth)
    with x show "\<exists>k<length edges. x \<in> set (zip (rows (edges ! k)) (features ! k))" by auto
  next
    assume "\<exists>k<length edges. x \<in> set (zip (rows (edges ! k)) (features ! k))"
    then obtain k where k: "k < length edges"
      and x: "x \<in> set (zip (rows (edges ! k)) (features ! k))" by blast
    have "(rows (edges ! k), features ! k) \<in> set (zip (map rows edges) features)"
      using k l by (auto simp: in_set_conv_nth intro!: exI [of _ k])
    with x show "\<exists>p\<in>set (zip (map rows edges) features). x \<in> set (zip (fst p) (snd p))"
      by force
  qed
  finally show ?thesis .
qed

lemma atom_edges_of_Inr:
  assumes "atom_edges_of nl numbers cutoff i = Inr (e, f)"
  shows "\<exists>found. get_neighbors nl i cutoff = Inr found
           \<and> (\<forall>(j, rel, d2)\<in>set found. j < length numbers)
           \<and> e = \<lparr>ncols = 2, rows = map (\<lambda>(j, rel, d2). [j, i]) found\<rparr>
           \<and> f = map (\<lambda>(j, rel, d2). sqrt d2) found"
proof -
  from assms obtain found where g: "get_neighbors nl i cutoff = Inr found"
    by (auto simp: atom_edges_of_def split: sum.splits)
  from assms g have ok: "\<not> list_ex (\<lambda>j. length numbers \<le> j) (map fst found)"
    and e: "e = np_stack (map fst found) (map (\<lambda>j. i) (map fst found))"
    and f: "f = map (\<lambda>(j, rel, d2). sqrt d2) found"
    by (auto simp: atom_edges_of_def Let_def split: if_splits)
  have "map2 (\<lambda>x y. [x, y]) (map fst found) (map (\<lambda>j. i) (map fst found))
          = map (\<lambda>(j, rel, d2). [j, i]) found"
    by (induction found) auto
  with e have "e = \<lparr>ncols = 2, rows = map (\<lambda>(j, rel, d2). [j, i]) found\<rparr>"
    by (simp add: np_stack_def)
  moreover have "\<forall>(j, rel, d2)\<in>set found. j < length numbers"
    using ok by (auto simp: list_ex_iff not_le)
  ultimately show ?thesis using g f by blast
qed

lemma atoms_to_graph_Inr:
  assumes "atoms_to_graph lib a cutoff = Inr (edges, features, nl)"
  shows "length edges = len_atoms a" "length features = len_atoms a"
    "\<And>i. i < len_atoms a \<Longrightarrow>
       \<exists>found. get_neighbors nl i cutoff = Inr found
           \<and> (\<forall>(j, rel, d2)\<in>set found. j < len_atoms a)
           \<and> edges ! i = \<lparr>ncols = 2, rows = map (\<lambda>(j, rel, d2). [j, i]) found\<rparr>
           \<and> features ! i = map (\<lambda>(j, rel, d2). sqrt d2) found"
proof -
  let ?nl = "atoms_to_graph_neighborlist lib a cutoff"
  from assms obtain per_atom where
    m: "map_result (atom_edges_of ?nl (get_atomic_numbers a) cutoff) [0..<len_atoms a] = Inr per_atom"
    and e: "edges = map fst per_atom" and f: "features = map snd per_atom" and n: "nl = ?nl"
    by (auto simp: atoms_to_graph_def Let_def split: sum.splits)
  from m have la: "list_all2 (\<lambda>i y. atom_edges_of ?nl (get_atomic_numbers a) cutoff i = Inr y)
                     [0..<len_atoms a] per_atom"
    by (simp add: map_result_Inr_iff)
  then have len: "length per_atom = len_atoms a"
    by (auto dest: list_all2_lengthD)
  show "length edges = len_atoms a" "length features = len_atoms a"
    using len e f by simp_all
  fix i assume i: "i < len_atoms a"
  from la i have "atom_edges_of ?nl (get_atomic_numbers a) cutoff i = Inr (per_atom ! i)"
    by (auto simp: list_all2_conv_all_nth)
  then have "atom_edges_of nl (get_atomic_numbers a) cutoff i = Inr (edges ! i, features ! i)"
    using e f n i len by simp
  from atom_edges_of_Inr [OF this]
  show "\<exists>found. get_neighbors nl i cutoff = Inr found
           \<and> (\<forall>(j, rel, d2)\<in>set found. j < len_atoms a)
           \<and> edges ! i = \<lparr>ncols = 2, rows = map (\<lambda>(j, rel, d2). [j, i]) found\<rparr>
           \<and> features ! i = map (\<lambda>(j, rel, d2). sqrt d2) found"
    by (simp add: get_atomic_numbers_def len_atoms_def)
qed

lemma atoms_to_graph_edge_iff:
  assumes "atoms_to_graph lib a cutoff = Inr (edges, features, nl)"
  shows "(row, d) \<in> set (edge_list edges features)
           \<longleftrightarrow> (\<exists>i<len_atoms a. \<exists>found j rel d2. get_neighbors nl i cutoff = Inr found
                   \<and> (j, rel, d2) \<in> set found \<and> row = [j, i] \<and> d = sqrt d2)"
proof -
  note r = atoms_to_graph_Inr [OF assms]
  have zipk: "zip (rows (edges ! i)) (features ! i) = map (\<lambda>(j, rel, d2). ([j, i], sqrt d2)) found"
    if "i < len_atoms a" "get_neighbors nl i cutoff = Inr found" for i found
  proof -
    from r(3) [OF that(1)] that(2)
    have "edges ! i = \<lparr>ncols = 2, rows = map (\<lambda>(j, rel, d2). [j, i]) found\<rparr>"
      and "features ! i = map (\<lambda>(j, rel, d2). sqrt d2) found" by auto
    then show ?thesis by (simp add: zip_map_map case_prod_beta zip_same_conv_map)
  qed
  have "list_all2 (\<lambda>e f. length (rows e) = length f) edges features"
    unfolding list_all2_conv_all_nth
  proof (intro conjI allI impI)
    show "length edges = length features" using r(1,2) by simp
    fix i assume "i < length edges"
    then have "i < len_atoms a" using r(1) by simp
    from r(3) [OF this] show "length (rows (edges ! i)) = length (features ! i)" by auto
  qed
  from in_edge_list [OF this]
  have "(row, d) \<in> set (edge_list edges features)
      \<longleftrightarrow> (\<exists>i<len_atoms a. (row, d) \<in> set (zip (rows (edges ! i)) (features ! i)))"
    using r(1) by simp
  also have "\<dots> \<longleftrightarrow> (\<exists>i<len_atoms a. \<exists>found j rel d2. get_neighbors nl i cutoff = Inr found
                   \<and> (j, rel, d2) \<in> set found \<and> row = [j, i] \<and> d = sqrt d2)"
  proof (intro ex_cong1 conj_cong refl)
    fix i assume i: "i < len_atoms a"
    from r(3) [OF i] obtain found where g: "get_neighbors nl i cutoff = Inr found" by blast
    show "(row, d) \<in> set (zip (rows (edges ! i)) (features ! i))
        \<longleftrightarrow> (\<exists>found j rel d2. get_neighbors nl i cutoff = Inr found
                   \<and> (j, rel, d2) \<in> set found \<and> row = [j, i] \<and> d = sqrt d2)"
      unfolding zipk [OF i g] using g by force
  qed
  finally show ?thesis .
qed

lemma atoms_to_graph_returns_index:
  assumes "atoms_to_graph lib a cutoff = Inr (e, f, nl)"
  shows "nl = atoms_to_graph_neighborlist lib a cutoff"
  using assms by (auto simp: atoms_to_graph_def Let_def split: sum.splits)

lemma probe_edges_of_Inr:
  assumes "probe_edges_of numbers (i, found) = Inr (e, f)"
  shows "\<forall>(j, rel, d2)\<in>set found. j < length numbers"
    and "e = \<lparr>ncols = 2, rows = map (\<lambda>(j, rel, d2). [j, i])
                                   (filter (\<lambda>(j, rel, d2). numbers ! j \<noteq> 0) found)\<rparr>"
    and "f = map (\<lambda>(j, rel, d2). sqrt d2) (filter (\<lambda>(j, rel, d2). numbers ! j \<noteq> 0) found)"
proof -
  let ?keep = "filter (\<lambda>(j, rel, d2). numbers ! j \<noteq> 0) found"
  from assms have ok: "\<not> list_ex (\<lambda>(j, rel, d2). length numbers \<le> j) found"
    and e: "e = np_stack (map fst ?keep) (map (\<lambda>j. i) (map fst ?keep))"
    and f: "f = map (\<lambda>(j, rel, d2). sqrt d2) ?keep"
    by (auto simp: probe_edges_of_def Let_def split: if_splits)
  show "\<forall>(j, rel, d2)\<in>set found. j < length numbers"
    using ok by (auto simp: list_ex_iff not_le)
  have "map2 (\<lambda>x y. [x, y]) (map fst xs) (map (\<lambda>j. i) (map fst xs))
          = map (\<lambda>(j, rel, d2). [j, i]) xs" for xs :: neighbors
    by (induction xs) auto
  with e show "e = \<lparr>ncols = 2, rows = map (\<lambda>(j, rel, d2). [j, i]) ?keep\<rparr>"
    by (simp add: np_stack_def)
  show "f = map (\<lambda>(j, rel, d2). sqrt d2) ?keep" by (rule f)
qed

lemma probes_to_graph_Inr:
  assumes "probes_to_graph lib a probe_pos cutoff nl = Inr (p_edges, p_features)"
  shows "\<exists>results numbers.
           length p_edges = length results \<and> length p_features = length results
           \<and> (\<forall>k<length results.
                 probe_edges_of numbers (k, results ! k) = Inr (p_edges ! k, p_features ! k))
           \<and> ((\<exists>l. hasattr_get_neighbors_querypoint nl = Some l
                    \<and> get_neighbors_querypoint l probe_pos = Inr results
                    \<and> numbers = get_atomic_numbers a)
               \<or> (hasattr_get_neighbors_querypoint nl = None
                    \<and> length results = length probe_pos
                    \<and> numbers = get_atomic_numbers a @ replicate (length probe_pos) 0))"
proof -
  let ?awp = "atoms_extend a (probe_atoms probe_pos)"
  let ?nl' = "probes_to_graph_neighborlist lib a ?awp cutoff"
  define first where "first =
        (case hasattr_get_neighbors_querypoint nl of
           Some l \<Rightarrow>
             (case get_neighbors_querypoint l probe_pos of
                Inl e \<Rightarrow> Inl e
              | Inr results \<Rightarrow> Inr (results, get_atomic_numbers a))
         | None \<Rightarrow>
             (case map_result (\<lambda>i. get_neighbors ?nl' (i + len_atoms a) cutoff)
                        [0..<length probe_pos] of
                   Inl e \<Rightarrow> Inl e
                 | Inr results \<Rightarrow> Inr (results, get_atomic_numbers ?awp)))"
  from assms obtain results numbers per_probe where
    fr: "first = Inr (results, numbers)"
    and mp: "map_result (probe_edges_of numbers) (enumerate 0 results) = Inr per_probe"
    and pe: "p_edges = map fst per_probe" and pf: "p_features = map snd per_probe"
    unfolding probes_to_graph_def Let_def first_def [symmetric]
    by (auto split: sum.splits)
  from mp have la: "list_all2 (\<lambda>x y. probe_edges_of numbers x = Inr y)
                      (enumerate 0 results) per_probe"
    by (simp add: map_result_Inr_iff)
  then have len: "length per_probe = length results"
    by (auto dest: list_all2_lengthD)
  have each: "probe_edges_of numbers (k, results ! k) = Inr (p_edges ! k, p_features ! k)"
    if "k < length results" for k
  proof -
    from la that have "probe_edges_of numbers (enumerate 0 results ! k) = Inr (per_probe ! k)"
      by (auto simp: list_all2_conv_all_nth)
    then show ?thesis using that len by (simp add: pe pf nth_enumerate_eq)
  qed
  have branch: "(\<exists>l. hasattr_get_neighbors_querypoint nl = Some l
                    \<and> get_neighbors_querypoint l probe_pos = Inr results
                    \<and> numbers = get_atomic_numbers a)
               \<or> (hasattr_get_neighbors_querypoint nl = None
                    \<and> length results = length probe_pos
                    \<and> numbers = get_atomic_numbers a @ replicate (length probe_pos) 0)"
  proof (cases "hasattr_get_neighbors_querypoint nl")
    case (Some l)
    with fr show ?thesis by (auto simp: first_def split: sum.splits)
  next
    case None
    with fr have m: "map_result (\<lambda>i. get_neighbors ?nl' (i + len_atoms a) cutoff)
                        [0..<length probe_pos] = Inr results"
      and n: "numbers = get_atomic_numbers ?awp"
      by (auto simp: first_def split: sum.splits)
    from m have "length results = length probe_pos"
      by (auto simp: map_result_Inr_iff dest: list_all2_lengthD)
    moreover have "get_atomic_numbers ?awp
                     = get_atomic_numbers a @ replicate (length probe_pos) 0"
      by (simp add: get_atomic_numbers_def atoms_extend_def probe_atoms_def map_replicate_const comp_def)
    ultimately show ?thesis using None n by simp
  qed
  show ?thesis using len pe pf each branch by (intro exI [of _ results] exI [of _ numbers]) simp
qed

section \<open>Properties of grid slicing\<close>

lemma ceiling_real_div_nat:
  assumes "0 < p"
  shows "nat \<lceil>real n / real p\<rceil> = (n + p - 1) div p"
proof -
  define m where "m = (n + p - 1) div p"
  have mp: "m * p + (n + p - 1) mod p = n + p - 1"
    unfolding m_def by simp
  have "(n + p - 1) mod p < p" using assms by simp
  with mp have lo: "n \<le> m * p" and hi: "m * p < n + p" using assms by linarith+
  have le: "real n / real p \<le> real m"
  proof -
    have "real n \<le> real (m * p)" using lo by (simp only: of_nat_le_iff)
    then show ?thesis using assms by (simp add: pos_divide_le_eq)
  qed
  have gt: "real m - 1 < real n / real p"
  proof -
    have "real (m * p) < real (n + p)" using hi by (simp only: of_nat_less_iff)
    then have "(real m - 1) * real p < real n" by (simp add: algebra_simps)
    then show ?thesis using assms by (simp add: pos_less_divide_eq)
  qed
  have "\<lceil>real n / real p\<rceil> = int m"
    by (rule ceiling_unique) (use le gt in simp_all)
  then show ?thesis by (simp add: m_def)
qed

lemma ceiling_div_bounds:
  assumes "0 < (p::nat)"
  shows "n \<le> (n + p - 1) div p * p" and "(n + p - 1) div p * p < n + p"
proof -
  define m where "m = (n + p - 1) div p"
  have mp: "m * p + (n + p - 1) mod p = n + p - 1"
    unfolding m_def by simp
  have "(n + p - 1) mod p < p" using assms by simp
  with mp have "n \<le> m * p" and "m * p < n + p" using assms by linarith+
  then show "n \<le> (n + p - 1) div p * p" and "(n + p - 1) div p * p < n + p"
    by (simp_all add: m_def)
qed

lemma concat_slices_upto:
  "concat (map (\<lambda>k. [k * p ..< min ((k + 1) * p) n]) [0..<m]) = [0 ..< min (m * p) n]"
proof (induction m)
  case 0
  show ?case by simp
next
  case (Suc m)
  show ?case
  proof (cases "m * p \<le> n")
    case True
    define b where "b = min (Suc m * p) n"
    have "m * p \<le> b" using True by (simp add: b_def)
    then obtain k where k: "b = m * p + k" using le_Suc_ex by blast
    have "[0..<m * p] @ [m * p..<b] = [0..<b]"
      unfolding k by (rule upt_add_eq_append [symmetric]) simp
    then show ?thesis using Suc True by (simp add: b_def min_absorb1)
  next
    case False
    then show ?thesis using Suc by (simp add: min_def)
  qed
qed

lemma unravel_index_row_major:
  assumes "f < nx * ny * nz"
  shows "\<exists>i j l. unravel_index f (nx, ny, nz) = Inr (i, j, l)
           \<and> i < nx \<and> j < ny \<and> l < nz \<and> f = (i * ny + j) * nz + l"
proof -
  have nz: "0 < nz" and ny: "0 < ny" using assms by (cases nz; cases ny; simp)+
  let ?i = "f div (ny * nz)" and ?j = "(f div nz) mod ny" and ?l = "f mod nz"
  have i: "?i < nx"
    using assms by (simp add: less_mult_imp_div_less mult.assoc)
  have "f div (ny * nz) = (f div nz) div ny"
    by (subst mult.commute) (rule div_mult2_eq)
  then have "?i * ny + ?j = f div nz" by simp
  then have "(?i * ny + ?j) * nz + ?l = f" by simp
  then show ?thesis
    using assms i nz ny by (simp add: unravel_index_def)
qed

text \<open>
  Claim C3. For a grid shape \<open>(nx, ny, nz)\<close> and a positive \<open>probe_count\<close>: the number
  of slices is the ceiling of \<open>total_points / probe_count\<close> (the unique \<open>m\<close> with
  \<open>total_points \<le> m * probe_count < total_points + probe_count\<close>); slice \<open>k\<close> is the
  range of flat indices from \<open>k * probe_count\<close> up to, excluding,
  \<open>min ((k + 1) * probe_count) total_points\<close>; every index of a slice unravels, in
  row-major order, to a grid position inside the shape; and the slices
  \<open>0, \<dots>, num_slices - 1\<close> concatenated in order are exactly \<open>0, \<dots>, total_points - 1\<close>,
  so there is neither a gap nor an overlap.
\<close>

theorem grid_slices_partition:
  assumes "0 < probe_count"
  shows "\<exists>m. num_slices (nx, ny, nz) probe_count = Inr m
           \<and> real m = of_int \<lceil>real (nx * ny * nz) / real probe_count\<rceil>
           \<and> nx * ny * nz \<le> m * probe_count \<and> m * probe_count < nx * ny * nz + probe_count
           \<and> (\<forall>k. flat_index k probe_count (nx, ny, nz)
                    = [k * probe_count ..< min ((k + 1) * probe_count) (nx * ny * nz)])
           \<and> (\<forall>k. \<forall>f \<in> set (flat_index k probe_count (nx, ny, nz)).
                  \<exists>i j l. unravel_index f (nx, ny, nz) = Inr (i, j, l)
                    \<and> i < nx \<and> j < ny \<and> l < nz \<and> f = (i * ny + j) * nz + l)
           \<and> concat (map (\<lambda>k. flat_index k probe_count (nx, ny, nz)) [0..<m])
               = [0 ..< nx * ny * nz]"
proof -
  define n where "n = nx * ny * nz"
  define m where "m = (n + probe_count - 1) div probe_count"
  have ns: "num_slices (nx, ny, nz) probe_count = Inr m"
    using assms ceiling_real_div_nat [OF assms, of n]
    by (simp add: num_slices_def prod_shape_def m_def n_def)
  have "nat \<lceil>real n / real probe_count\<rceil> = m"
    using assms by (simp add: ceiling_real_div_nat m_def)
  moreover have "0 \<le> \<lceil>real n / real probe_count\<rceil>"
  proof -
    have "0 \<le> real n / real probe_count" by simp
    then show ?thesis by linarith
  qed
  ultimately have "int m = \<lceil>real n / real probe_count\<rceil>" by linarith
  then have ceil: "real m = of_int \<lceil>real n / real probe_count\<rceil>"
    by (metis of_int_of_nat_eq)
  have lo: "n \<le> m * probe_count" and hi: "m * probe_count < n + probe_count"
    using ceiling_div_bounds [OF assms, of n] by (simp_all add: m_def)
  have fi: "flat_index k probe_count (nx, ny, nz)
              = [k * probe_count ..< min ((k + 1) * probe_count) n]" for k
    by (simp add: flat_index_def arange_def prod_shape_def n_def)
  have un: "\<exists>i j l. unravel_index f (nx, ny, nz) = Inr (i, j, l)
              \<and> i < nx \<and> j < ny \<and> l < nz \<and> f = (i * ny + j) * nz + l"
    if "f \<in> set (flat_index k probe_count (nx, ny, nz))" for k f
  proof -
    from that have "f < n" by (simp add: fi)
    then show ?thesis unfolding n_def by (rule unravel_index_row_major)
  qed
  have "concat (map (\<lambda>k. flat_index k probe_count (nx, ny, nz)) [0..<m])
          = [0 ..< min (m * probe_count) n]"
    by (simp only: fi concat_slices_upto)
  then have cc: "concat (map (\<lambda>k. flat_index k probe_count (nx, ny, nz)) [0..<m]) = [0 ..< n]"
    using lo by (simp add: min_absorb2)
  show ?thesis
    using ns ceil lo hi fi un cc unfolding n_def by blast
qed

theorem grid_slices_partition_witness:
  "(0::nat) < 5
   \<and> num_slices (2, 3, 4) 5 = Inr 5
   \<and> map (\<lambda>k. flat_index k 5 (2, 3, 4)) [0..<5]
       = [[0, 1, 2, 3, 4], [5, 6, 7, 8, 9], [10, 11, 12, 13, 14],
          [15, 16, 17, 18, 19], [20, 21, 22, 23]]
   \<and> concat (map (\<lambda>k. flat_index k 5 (2, 3, 4)) [0..<5]) = [0 ..< 24]"
proof -
  have h: "(0::nat) < 5" by simp
  from grid_slices_partition [OF h, of 2 3 4]
  obtain m where m: "num_slices (2, 3, 4) 5 = Inr m"
    and cc: "concat (map (\<lambda>k. flat_index k 5 (2, 3, 4)) [0..<m]) = [0 ..< 2 * 3 * 4]"
    by blast
  have ns: "num_slices (2, 3, 4) 5 = Inr 5"
    by (simp add: num_slices_def prod_shape_def)
  with m have "m = 5" by simp
  with cc have c5: "concat (map (\<lambda>k. flat_index k 5 (2, 3, 4)) [0..<5]) = [0 ..< 24]"
    by simp
  have sl: "map (\<lambda>k. flat_index k 5 (2, 3, 4)) [0..<5]
       = [[0, 1, 2, 3, 4], [5, 6, 7, 8, 9], [10, 11, 12, 13, 14],
          [15, 16, 17, 18, 19], [20, 21, 22, 23]]"
    by code_simp
  show ?thesis using h ns sl c5 by blast
qed

section \<open>Properties of the ordered consumer\<close>

lemma retrieve_inv:
  assumes "pending_once fin q" "c \<in> pending_keys fin q"
  shows "\<exists>fin' q'. retrieve cv c fin q = Some (fin', q') \<and> fin' c \<noteq> None
           \<and> pending cv fin' q' = pending cv fin q \<and> pending_keys fin' q' = pending_keys fin q \<and> pending_once fin' q'"
  using assms
proof (induction q arbitrary: fin)
  case Nil
  then show ?case by (auto simp: pending_keys_def)
next
  case (Cons a q)
  obtain i r where a: "a = (i, r)" by (cases a)
  show ?case
  proof (cases "fin c")
    case (Some v)
    then show ?thesis using Cons.prems a by auto
  next
    case None
    let ?fin = "fin(i \<mapsto> cv r)"
    have d: "pending_once ?fin q" using Cons.prems(1) a by (auto simp: pending_once_def)
    have k: "pending_keys ?fin q = pending_keys fin (a # q)" using a by (auto simp: pending_keys_def)
    have p: "pending cv ?fin q = pending cv fin (a # q)"
      using Cons.prems(1) a by (auto simp: pending_def pending_once_def fun_eq_iff split: option.splits)
    have kc: "c \<in> pending_keys ?fin q" using Cons.prems(2) k by simp
    from Cons.IH [OF d kc]
    obtain fin' q' where r: "retrieve cv c ?fin q = Some (fin', q')" and f: "fin' c \<noteq> None"
      and p': "pending cv fin' q' = pending cv ?fin q" and k': "pending_keys fin' q' = pending_keys ?fin q"
      and d': "pending_once fin' q'"
      by blast
    have "retrieve cv c fin (a # q) = Some (fin', q')" using None a r by simp
    then show ?thesis using f p' k' d' k p by simp
  qed
qed

lemma pop_inv:
  assumes "pending_once fin q" "fin c \<noteq> None"
  shows "pending_once (fin(c := None)) q" "pending_keys (fin(c := None)) q = pending_keys fin q - {c}"
    "k \<noteq> c \<Longrightarrow> pending cv (fin(c := None)) q k = pending cv fin q k"
  using assms by (auto simp: pending_once_def pending_keys_def pending_def)

lemma consume_inv:
  assumes "num_slices_of s = n" "current_slice s = c" "c \<le> n"
    "pending_keys (finished_slices s) (result_queue s) = {c..<n}"
    "pending_once (finished_slices s) (result_queue s)"
  shows "consume cv s =
           Some (Inr (map (\<lambda>k. the (pending cv (finished_slices s) (result_queue s) k)) [c..<n],
                      s\<lparr>current_slice := n, finished_slices := Map.empty, result_queue := []\<rparr>))"
  using assms
proof (induction "n - c" arbitrary: s c)
  case 0
  then have cn: "c = n" by simp
  with 0 have "pending_keys (finished_slices s) (result_queue s) = {}" by simp
  then have e: "finished_slices s = Map.empty" "result_queue s = []"
    by (auto simp: pending_keys_def)
  have "next_slice cv s = Some (Inl StopIteration)"
    using 0 cn by (simp add: next_slice_def)
  then show ?case using cn e 0 by (subst consume.simps) (simp del: consume.simps)
next
  case (Suc d)
  then have lt: "c < n" by simp
  let ?fin = "finished_slices s" and ?q = "result_queue s"
  have ck: "c \<in> pending_keys ?fin ?q" using Suc.prems lt by simp
  from retrieve_inv [OF Suc.prems(5) ck, of cv]
  obtain fin' q' where r: "retrieve cv c ?fin ?q = Some (fin', q')" and f: "fin' c \<noteq> None"
      and p': "pending cv fin' q' = pending cv ?fin ?q" and k': "pending_keys fin' q' = pending_keys ?fin ?q"
      and d': "pending_once fin' q'"
    by blast
  from f obtain v where v: "fin' c = Some v" by blast
  define s' where "s' = s\<lparr>current_slice := c + 1, finished_slices := fin'(c := None),
                         result_queue := q'\<rparr>"
  have nx: "next_slice cv s = Some (Inr (v, s'))"
    using Suc.prems lt r v by (simp add: next_slice_def s'_def)
  have pv: "pending cv ?fin ?q c = Some v" using p' v by (metis pending_def option.simps(5))
  have ih: "consume cv s' =
           Some (Inr (map (\<lambda>k. the (pending cv (finished_slices s') (result_queue s') k)) [c + 1..<n],
                      s'\<lparr>current_slice := n, finished_slices := Map.empty, result_queue := []\<rparr>))"
  proof (rule Suc.hyps(1))
    show "d = n - (c + 1)" using Suc.hyps(2) by simp
    show "num_slices_of s' = n" using Suc.prems by (simp add: s'_def)
    show "current_slice s' = c + 1" by (simp add: s'_def)
    show "c + 1 \<le> n" using lt by simp
    show "pending_keys (finished_slices s') (result_queue s') = {c + 1..<n}"
      using pop_inv(2) [OF d' f] k' Suc.prems(4) by (auto simp: s'_def)
    show "pending_once (finished_slices s') (result_queue s')"
      using pop_inv(1) [OF d' f] by (simp add: s'_def)
  qed
  have pe: "map (\<lambda>k. the (pending cv (finished_slices s') (result_queue s') k)) [c + 1..<n]
            = map (\<lambda>k. the (pending cv ?fin ?q k)) [c + 1..<n]"
  proof (rule map_cong [OF refl])
    fix k assume "k \<in> set [c + 1..<n]"
    then have "k \<noteq> c" by simp
    from pop_inv(3) [OF d' f this, of cv] p'
    show "the (pending cv (finished_slices s') (result_queue s') k) = the (pending cv ?fin ?q k)"
      by (simp add: s'_def)
  qed
  have up: "[c..<n] = c # [c + 1..<n]" using lt by (simp add: upt_conv_Cons)
  have fs: "s'\<lparr>current_slice := n, finished_slices := Map.empty, result_queue := []\<rparr>
            = s\<lparr>current_slice := n, finished_slices := Map.empty, result_queue := []\<rparr>"
    by (simp add: s'_def)
  have step: "consume cv s =
      Some (Inr (v # map (\<lambda>k. the (pending cv (finished_slices s') (result_queue s') k)) [c + 1..<n],
                 s'\<lparr>current_slice := n, finished_slices := Map.empty, result_queue := []\<rparr>))"
    by (subst consume.simps) (simp add: nx ih del: consume.simps)
  have tgt: "map (\<lambda>k. the (pending cv ?fin ?q k)) [c..<n]
             = v # map (\<lambda>k. the (pending cv ?fin ?q k)) [c + 1..<n]"
    by (simp only: up list.map pv option.sel)
  show ?case unfolding step pe fs tgt ..
qed

lemma next_slice_evicts:
  assumes "next_slice cv s = Some (Inr (v, s'))"
  shows "finished_slices s' (current_slice s) = None \<and> current_slice s' = current_slice s + 1"
  using assms
  by (auto simp: next_slice_def Let_def split: if_splits option.splits prod.splits)

text \<open>
  Claim C2. Let the deliveries on the result channel carry the slice indices
  \<open>0, \<dots>, num_slices - 1\<close> in any order, each once. Then the loop over the iterator
  returns, and it yields the result of slice 0, then of slice 1, and so on up to slice
  \<open>num_slices - 1\<close>; when it ends the dictionary of pending results and the channel
  are empty. Moreover every call of \<open>__next__\<close> that returns a slice has advanced the
  expected index by one and has removed the entry it returns from the dictionary.
\<close>

theorem grid_iterator_yields_in_order:
  assumes "mset (map fst arrivals) = mset [0..<n]"
  shows "consume to_tensor (iter n arrivals)
           = Some (Inr (map (\<lambda>k. to_tensor (the (map_of arrivals k))) [0..<n],
                        \<lparr>num_slices_of = n, current_slice = n, finished_slices = Map.empty,
                         result_queue = []\<rparr>))
         \<and> (\<forall>s v s'. next_slice to_tensor s = Some (Inr (v, s')) \<longrightarrow>
                finished_slices s' (current_slice s) = None
                \<and> current_slice s' = current_slice s + 1)"
proof -
  let ?s = "iter n arrivals :: ('a, 'b) grid_iterator"
  have d: "distinct (map fst arrivals)"
    using assms by (metis distinct_upt mset_eq_imp_distinct_iff)
  have st: "set (map fst arrivals) = {0..<n}"
    using assms by (metis mset_eq_setD set_upt)
  have k: "pending_keys (finished_slices ?s) (result_queue ?s) = {0..<n}"
    using st by (simp add: pending_keys_def iter_def)
  have dj: "pending_once (finished_slices ?s) (result_queue ?s)"
    using d by (simp add: pending_once_def iter_def)
  have pe: "pending to_tensor (finished_slices ?s) (result_queue ?s) k
            = map_option to_tensor (map_of arrivals k)" for k
    by (simp add: pending_def iter_def)
  have inr: "k \<in> set [0..<n] \<Longrightarrow> map_of arrivals k \<noteq> None" for k
    using st by (metis map_of_eq_None_iff set_map set_upt)
  have mp: "map (\<lambda>k. the (pending to_tensor (finished_slices ?s) (result_queue ?s) k)) [0..<n]
            = map (\<lambda>k. to_tensor (the (map_of arrivals k))) [0..<n]"
  proof (rule map_cong [OF refl])
    fix k assume "k \<in> set [0..<n]"
    from inr [OF this] show "the (pending to_tensor (finished_slices ?s) (result_queue ?s) k)
            = to_tensor (the (map_of arrivals k))"
      by (auto simp: pe)
  qed
  have fs: "?s\<lparr>current_slice := n, finished_slices := Map.empty, result_queue := []\<rparr>
            = \<lparr>num_slices_of = n, current_slice = n, finished_slices = Map.empty,
                         result_queue = []\<rparr>"
    by (simp add: iter_def)
  have "consume to_tensor ?s =
           Some (Inr (map (\<lambda>k. the (pending to_tensor (finished_slices ?s) (result_queue ?s) k)) [0..<n],
                      ?s\<lparr>current_slice := n, finished_slices := Map.empty, result_queue := []\<rparr>))"
    by (rule consume_inv [OF _ _ _ k dj]) (simp_all add: iter_def)
  then have main: "consume to_tensor ?s
           = Some (Inr (map (\<lambda>k. to_tensor (the (map_of arrivals k))) [0..<n],
                        \<lparr>num_slices_of = n, current_slice = n, finished_slices = Map.empty,
                         result_queue = []\<rparr>))"
    unfolding mp fs .
  show ?thesis
  proof (intro conjI allI impI)
    show "consume to_tensor (iter n arrivals)
           = Some (Inr (map (\<lambda>k. to_tensor (the (map_of arrivals k))) [0..<n],
                        \<lparr>num_slices_of = n, current_slice = n, finished_slices = Map.empty,
                         result_queue = []\<rparr>))"
      by (rule main)
  next
    fix s :: "('a, 'b) grid_iterator" and v s'
    assume "next_slice to_tensor s = Some (Inr (v, s'))"
    from next_slice_evicts [OF this]
    show "finished_slices s' (current_slice s) = None" "current_slice s' = current_slice s + 1"
      by simp_all
  qed
qed

theorem grid_iterator_yields_in_order_witness:
  "mset (map fst [(2, 30), (0, 10), (1, 20::nat)]) = mset [0..<3]
   \<and> consume (\<lambda>r. r + 1) (iter 3 [(2, 30), (0, 10), (1, 20::nat)])
       = Some (Inr ([11, 21, 31::nat],
                    \<lparr>num_slices_of = 3, current_slice = 3, finished_slices = Map.empty,
                     result_queue = []\<rparr>))"
proof -
  have h: "mset (map fst [(2, 30), (0, 10), (1, 20::nat)]) = mset [0..<3]"
    by (simp add: upt_conv_Cons)
  have u: "[0..<3] = [0, 1, 2]" by (simp add: upt_conv_Cons)
  from grid_iterator_yields_in_order [OF h, of "\<lambda>r. r + 1"]
  show ?thesis using h unfolding u by simp
qed

section \<open>Properties of the rotating pool\<close>

lemma init_pool:
  assumes "length draws = capacity" "\<forall>i\<in>set draws. i < length parent_data"
  shows "RotatingPoolData parent_data capacity draws =
           Inr \<lparr>pool_size = capacity, data_pool = map ((!) parent_data) draws,
                loader_queue = [], pending_permutation = [], transfer_index = 0\<rparr>"
proof -
  let ?f = "\<lambda>i. if i < length parent_data then Inr (parent_data ! i) else Inl IndexError"
  have "map_result ?f draws = Inr (map (\<lambda>x. projr (?f x)) draws)"
    by (rule map_result_Inr_map) (use assms(2) in auto)
  moreover have "map (\<lambda>x. projr (?f x)) draws = map ((!) parent_data) draws"
    using assms(2) by (intro map_cong) auto
  ultimately show ?thesis by (simp add: RotatingPoolData_def)
qed

lemma step_inv:
  assumes "pool_inv parent_data capacity s" "step parent_data ev s = Some s'"
  shows "pool_inv parent_data capacity s'"
proof (cases ev)
  case (Loader_permutation p)
  then show ?thesis using assms by (auto simp: pool_inv_def split: if_splits)
next
  case Loader_put
  then show ?thesis using assms
    by (auto simp: pool_inv_def split: list.splits if_splits)
next
  case Transfer_get
  then obtain x q where q: "loader_queue s = x # q" and ti: "transfer_index s < length (data_pool s)"
    and s': "s' = s\<lparr>data_pool := (data_pool s)[transfer_index s := x], loader_queue := q,
                     transfer_index := (transfer_index s + 1) mod length (data_pool s)\<rparr>"
    using assms(2) by (auto split: list.splits if_splits)
  have "set ((data_pool s)[transfer_index s := x]) \<subseteq> insert x (set (data_pool s))"
    by (rule set_update_subset_insert)
  then show ?thesis using assms(1) q by (auto simp: pool_inv_def s')
qed

lemma run_inv:
  assumes "pool_inv parent_data capacity s" "run parent_data evs s = Some s'"
  shows "pool_inv parent_data capacity s'"
  using assms
proof (induction evs arbitrary: s)
  case Nil
  then show ?case by simp
next
  case (Cons ev evs)
  then obtain s1 where s1: "step parent_data ev s = Some s1" and r: "run parent_data evs s1 = Some s'"
    by (auto split: option.splits)
  from step_inv [OF Cons.prems(1) s1] have "pool_inv parent_data capacity s1" .
  from Cons.IH [OF this r] show ?case .
qed

text \<open>
  Claim C10. Let the draw have \<open>pool_size\<close> indices, each below the length of the
  parent dataset (indices may repeat). Then the constructor returns a pool whose slots
  hold the samples of the indices drawn, with an empty queue and nothing transferred
  yet; and after any schedule of actions of the loader process and of the transfer
  thread, \<open>len\<close> is \<open>pool_size\<close> and \<open>get(i)\<close> returns a sample of the parent dataset
  for every \<open>i < pool_size\<close>: no slot is ever empty.
\<close>

theorem rotating_pool_always_full:
  assumes "length draws = capacity" and "\<forall>i\<in>set draws. i < length parent_data"
  shows "\<exists>s0. RotatingPoolData parent_data capacity draws = Inr s0
           \<and> data_pool s0 = map ((!) parent_data) draws
           \<and> loader_queue s0 = [] \<and> pending_permutation s0 = [] \<and> transfer_index s0 = 0
           \<and> (\<forall>evs s. run parent_data evs s0 = Some s \<longrightarrow>
                 len_pool s = capacity
                 \<and> (\<forall>i<capacity. \<exists>x\<in>set parent_data. getitem s i = Inr x))"
proof -
  let ?s0 = "\<lparr>pool_size = capacity, data_pool = map ((!) parent_data) draws,
                loader_queue = [], pending_permutation = [], transfer_index = 0\<rparr>"
  have i0: "RotatingPoolData parent_data capacity draws = Inr ?s0"
    by (rule init_pool [OF assms])
  have inv0: "pool_inv parent_data capacity ?s0"
    using assms by (auto simp: pool_inv_def)
  have "len_pool s = capacity \<and> (\<forall>i<capacity. \<exists>x\<in>set parent_data. getitem s i = Inr x)"
    if "run parent_data evs ?s0 = Some s" for evs s
  proof -
    from run_inv [OF inv0 that] have inv: "pool_inv parent_data capacity s" .
    then have "\<exists>x\<in>set parent_data. getitem s i = Inr x" if "i < capacity" for i
      using that by (auto simp: pool_inv_def getitem_def)
    then show ?thesis using inv by (simp add: pool_inv_def len_pool_def)
  qed
  then show ?thesis using i0 by auto
qed

theorem rotating_pool_always_full_witness:
  "length [2, 0, 2::nat] = 3
   \<and> list_all (\<lambda>i. i < length [''a'', ''b'', ''c'']) [2, 0, 2]
   \<and> RotatingPoolData [''a'', ''b'', ''c''] 3 [2, 0, 2]
       = Inr \<lparr>pool_size = 3, data_pool = [''c'', ''a'', ''c''], loader_queue = [],
              pending_permutation = [], transfer_index = 0\<rparr>
   \<and> run [''a'', ''b'', ''c''] [Loader_permutation [1, 2, 0], Loader_put, Loader_put, Transfer_get]
         \<lparr>pool_size = 3, data_pool = [''c'', ''a'', ''c''], loader_queue = [],
          pending_permutation = [], transfer_index = 0\<rparr>
       = Some \<lparr>pool_size = 3, data_pool = [''b'', ''a'', ''c''], loader_queue = [''c''],
               pending_permutation = [0], transfer_index = 1\<rparr>
   \<and> len_pool \<lparr>pool_size = 3, data_pool = [''b'', ''a'', ''c''], loader_queue = [''c''],
               pending_permutation = [0], transfer_index = 1\<rparr> = 3
   \<and> getitem \<lparr>pool_size = 3, data_pool = [''b'', ''a'', ''c''], loader_queue = [''c''],
               pending_permutation = [0], transfer_index = 1\<rparr> 0 = Inr ''b''"
proof -
  let ?c0 = "\<lparr>pool_size = 3, data_pool = [''c'', ''a'', ''c''], loader_queue = [],
              pending_permutation = [], transfer_index = 0\<rparr>"
  let ?c1 = "\<lparr>pool_size = 3, data_pool = [''b'', ''a'', ''c''], loader_queue = [''c''],
              pending_permutation = [0], transfer_index = 1\<rparr>"
  have h1: "length [2, 0, 2::nat] = 3" by simp
  have h2: "\<forall>i\<in>set [2, 0, 2::nat]. i < length [''a'', ''b'', ''c'']" by simp
  have i: "RotatingPoolData [''a'', ''b'', ''c''] 3 [2, 0, 2] = Inr ?c0"
    by (simp add: RotatingPoolData_def)
  have r: "run [''a'', ''b'', ''c''] [Loader_permutation [1, 2, 0], Loader_put, Loader_put, Transfer_get]
             ?c0 = Some ?c1"
    by (simp add: upt_conv_Cons)
  from rotating_pool_always_full [OF h1 h2]
  obtain s0 where a: "RotatingPoolData [''a'', ''b'', ''c''] 3 [2, 0, 2] = Inr s0"
    and b: "\<forall>evs s. run [''a'', ''b'', ''c''] evs s0 = Some s \<longrightarrow> len_pool s = 3
              \<and> (\<forall>i<3. \<exists>x\<in>set [''a'', ''b'', ''c'']. getitem s i = Inr x)"
    by blast
  from a i have "s0 = ?c0" by simp
  with b r have l: "len_pool ?c1 = 3" by blast
  have g: "getitem ?c1 0 = Inr ''b''" by (simp add: getitem_def)
  have h3: "list_all (\<lambda>i. i < length [''a'', ''b'', ''c'']) [2, 0, 2]" by simp
  show ?thesis using h1 h3 i r l g by blast
qed

section \<open>Properties of the choice of the index\<close>

lemma selection_condition:
  "(list_ex (\<lambda>l. l \<le> 0.0001) (lengths (cell a))
      \<or> (np_any (pbc a) \<and> list_ex (\<lambda>l. l < cutoff) (lengths (cell a))))
   = selects_fallback a cutoff"
  by (cases "cell a"; cases "pbc a")
     (auto simp: selects_fallback_def lengths_def np_any_def)

text \<open>
  Claim C4. For every structure and cutoff, the index built by \<open>atoms_to_graph\<close> is
  the fallback index exactly when the selection rule of the specification holds, and
  the fast index in every other case; the index that \<open>probes_to_graph\<close> builds when
  it cannot query points directly is chosen by the same rule, read on the structure
  without the probes; and the index \<open>atoms_to_graph\<close> returns is the one it chose.
\<close>

theorem neighborlist_selection:
  "is_fallback (atoms_to_graph_neighborlist lib a cutoff) = selects_fallback a cutoff
   \<and> is_fallback (probes_to_graph_neighborlist lib a atoms_with_probes cutoff)
       = selects_fallback a cutoff
   \<and> atoms_to_graph_neighborlist lib a cutoff
       = (if selects_fallback a cutoff then Fallback (AseNeigborListWrapper lib cutoff a)
          else Fast (asap3_FullNeighborList lib cutoff a))
   \<and> probes_to_graph_neighborlist lib a atoms_with_probes cutoff
       = (if selects_fallback a cutoff
          then Fallback (AseNeigborListWrapper lib cutoff atoms_with_probes)
          else Fast (asap3_FullNeighborList lib cutoff atoms_with_probes))
   \<and> (\<forall>e f nl. atoms_to_graph lib a cutoff = Inr (e, f, nl) \<longrightarrow>
          is_fallback nl = selects_fallback a cutoff)"
proof -
  have a: "atoms_to_graph_neighborlist lib a cutoff
       = (if selects_fallback a cutoff then Fallback (AseNeigborListWrapper lib cutoff a)
          else Fast (asap3_FullNeighborList lib cutoff a))"
    unfolding atoms_to_graph_neighborlist_def selection_condition ..
  have p: "probes_to_graph_neighborlist lib a atoms_with_probes cutoff
       = (if selects_fallback a cutoff
          then Fallback (AseNeigborListWrapper lib cutoff atoms_with_probes)
          else Fast (asap3_FullNeighborList lib cutoff atoms_with_probes))"
    unfolding probes_to_graph_neighborlist_def selection_condition ..
  have r: "is_fallback nl = selects_fallback a cutoff"
    if "atoms_to_graph lib a cutoff = Inr (e, f, nl)" for e f nl
    using atoms_to_graph_returns_index [OF that] a by simp
  show ?thesis using a p r by simp
qed

lemma norm3_axis:
  "0 \<le> x \<Longrightarrow> norm3 (x, 0, 0) = x"
  "0 \<le> x \<Longrightarrow> norm3 (0, x, 0) = x"
  "0 \<le> x \<Longrightarrow> norm3 (0, 0, x) = x"
  by (simp_all add: norm3_def)

lemma selects_fallback_two_atoms: "selects_fallback two_atoms (3 / 2)"
  by (simp add: selects_fallback_def two_atoms_def norm3_axis)

lemma selects_fast_in_box: "\<not> selects_fallback two_atoms_in_box (3 / 2)"
  by (simp add: selects_fallback_def two_atoms_in_box_def norm3_axis)

lemma selects_fallback_in_box: "selects_fallback two_atoms_in_box 12"
  by (simp add: selects_fallback_def two_atoms_in_box_def norm3_axis)

theorem neighborlist_selection_witness:
  "is_fallback (atoms_to_graph_neighborlist reference_library two_atoms (3 / 2))
   \<and> \<not> is_fallback (atoms_to_graph_neighborlist reference_library two_atoms_in_box (3 / 2))
   \<and> is_fallback (atoms_to_graph_neighborlist reference_library two_atoms_in_box 12)
   \<and> \<not> is_fallback (probes_to_graph_neighborlist reference_library two_atoms_in_box
          (atoms_extend two_atoms_in_box (probe_atoms [(0, 1, 0)])) (3 / 2))"
  using neighborlist_selection [of reference_library two_atoms "3 / 2" two_atoms]
    neighborlist_selection [of reference_library two_atoms_in_box "3 / 2"
       "atoms_extend two_atoms_in_box (probe_atoms [(0, 1, 0)])"]
    neighborlist_selection [of reference_library two_atoms_in_box 12 two_atoms]
    selects_fallback_two_atoms selects_fast_in_box selects_fallback_in_box
  by simp

section \<open>Properties of the cutoff check\<close>

lemma probes_to_graph_fast_ignores_cutoff:
  "probes_to_graph lib a probe_pos cutoff' (Some (Fast l))
     = probes_to_graph lib a probe_pos cutoff (Some (Fast l))"
  by (simp add: probes_to_graph_def hasattr_get_neighbors_querypoint_def)

text \<open>
  Claim C9, as the code has it. A fallback index built with cutoff \<open>c\<close> raises
  \<open>AssertionError\<close> when it is queried with any other cutoff, and answers a query with
  \<open>c\<close> itself for an atom of the structure (the primitive list naming atoms of the
  structure only). The fast index is queried without a check of the repository: a
  query for an atom goes to \<open>asap3\<close> as it is, and a query for probe points does not
  pass the cutoff at all, so its outcome is the same for every cutoff.
\<close>

theorem cutoff_checked_by_fallback_only:
  "(cutoff' \<noteq> cutoff \<longrightarrow>
      get_neighbors (Fallback (AseNeigborListWrapper lib cutoff a)) i cutoff'
        = Inl AssertionError)
   \<and> (i < len_atoms a
        \<and> (\<forall>(j, s)\<in>set (ase_NewPrimitiveNeighborList lib cutoff (pbc a) (cell a)
                             (get_positions a) i). j < len_atoms a) \<longrightarrow>
      (\<exists>found. get_neighbors (Fallback (AseNeigborListWrapper lib cutoff a)) i cutoff
                  = Inr found))
   \<and> get_neighbors (Fast l) i cutoff' = asap3_get_neighbors l i cutoff'
   \<and> probes_to_graph lib a probe_pos cutoff' (Some (Fast l))
       = probes_to_graph lib a probe_pos cutoff (Some (Fast l))"
proof (intro conjI impI)
  assume "cutoff' \<noteq> cutoff"
  then show "get_neighbors (Fallback (AseNeigborListWrapper lib cutoff a)) i cutoff'
               = Inl AssertionError"
    by (simp add: wrapper_get_neighbors_def AseNeigborListWrapper_def)
next
  let ?found = "ase_NewPrimitiveNeighborList lib cutoff (pbc a) (cell a) (get_positions a) i"
  assume h: "i < len_atoms a \<and> (\<forall>(j, s)\<in>set ?found. j < len_atoms a)"
  have n: "length (get_positions a) = len_atoms a"
    by (simp add: get_positions_def len_atoms_def)
  have "\<not> list_ex (\<lambda>(j, s). length (get_positions a) \<le> j) ?found"
    using h unfolding n list_ex_iff by fastforce
  then show "\<exists>found. get_neighbors (Fallback (AseNeigborListWrapper lib cutoff a)) i cutoff
                  = Inr found"
    using h n by (simp add: wrapper_get_neighbors_def AseNeigborListWrapper_def Let_def)
next
  show "get_neighbors (Fast l) i cutoff' = asap3_get_neighbors l i cutoff'" by simp
next
  show "probes_to_graph lib a probe_pos cutoff' (Some (Fast l))
       = probes_to_graph lib a probe_pos cutoff (Some (Fast l))"
    by (rule probes_to_graph_fast_ignores_cutoff)
qed

lemma fallback_two_atoms_query:
  "get_neighbors (Fallback (AseNeigborListWrapper reference_library (3 / 2) two_atoms)) 0 (3 / 2)
     = Inr [(1, (1, 0, 0), 1)]"
  by (simp add: wrapper_get_neighbors_def AseNeigborListWrapper_def reference_library_def
        two_atoms_def get_positions_def closer_than_def vsub_def vadd_def sum_square_def
        offset_at_cell_def scale_def upt_conv_Cons Let_def)

theorem cutoff_checked_by_fallback_only_witness:
  "(3::real) \<noteq> 3 / 2
   \<and> get_neighbors (Fallback (AseNeigborListWrapper reference_library (3 / 2) two_atoms)) 0 3
       = Inl AssertionError
   \<and> 0 < len_atoms two_atoms
   \<and> get_neighbors (Fallback (AseNeigborListWrapper reference_library (3 / 2) two_atoms)) 0 (3 / 2)
       = Inr [(1, (1, 0, 0), 1)]"
proof -
  have ne: "(3::real) \<noteq> 3 / 2" by simp
  from cutoff_checked_by_fallback_only [of 3 "3 / 2" reference_library two_atoms 0] ne
  have a: "get_neighbors (Fallback (AseNeigborListWrapper reference_library (3 / 2) two_atoms)) 0 3
       = Inl AssertionError"
    by blast
  have l: "0 < len_atoms two_atoms" by (simp add: len_atoms_def two_atoms_def)
  show ?thesis by (intro conjI ne a l fallback_two_atoms_query)
qed

text \<open>
  The claim as stated fails for the fast index: built with cutoff \<open>3/2\<close> and used for
  a probe query with cutoff \<open>3\<close>, it answers and no error is raised.
\<close>

theorem cutoff_mismatch_counterexample:
  "(3::real) \<noteq> 3 / 2
   \<and> probes_to_graph reference_library two_atoms_in_box [(0, 1, 0), (0, 1, 1)] 3
       (Some (Fast (asap3_FullNeighborList reference_library (3 / 2) two_atoms_in_box)))
     = Inr ([\<lparr>ncols = 2, rows = [[0, 0], [1, 0]]\<rparr>, \<lparr>ncols = 2, rows = [[0, 1]]\<rparr>],
            [[1, sqrt 2], [sqrt 2]])"
  by (simp add: probes_to_graph_def two_atoms_in_box_def Let_def
        hasattr_get_neighbors_querypoint_def found_at_def
        len_atoms_def get_atomic_numbers_def probe_edges_of_def
        reference_library_def
        closer_than_def get_positions_def vsub_def sum_square_def
        np_stack_def upt_conv_Cons enumerate_eq_zip)

section \<open>Properties of the probe edges\<close>

text \<open>
  Claim C7. Whenever \<open>probes_to_graph\<close> returns, it returns one edge array and one
  feature array for every probe, and every row of the array of probe \<open>k\<close> is
  \<open>(j, k)\<close>, where \<open>j\<close> is the index of an atom of the structure whose atomic number is
  not 0, so not a probe, and \<open>k\<close> is the index of the probe in the probe set, below the
  number of probes and not offset by the number of atoms.
\<close>

theorem probe_edges_atom_to_probe:
  assumes "probes_to_graph lib a probe_pos cutoff nl = Inr (p_edges, p_features)"
    and "answers_every_point nl probe_pos"
  shows "length p_edges = length probe_pos \<and> length p_features = length probe_pos
         \<and> (\<forall>k<length probe_pos.
               ncols (p_edges ! k) = 2
               \<and> length (rows (p_edges ! k)) = length (p_features ! k)
               \<and> (\<forall>row\<in>set (rows (p_edges ! k)).
                     \<exists>j. row = [j, k] \<and> j < len_atoms a \<and> get_atomic_numbers a ! j \<noteq> 0))"
proof -
  from probes_to_graph_Inr [OF assms(1)] obtain results numbers where
    le: "length p_edges = length results" and lf: "length p_features = length results"
    and each: "\<And>k. k < length results \<Longrightarrow>
                 probe_edges_of numbers (k, results ! k) = Inr (p_edges ! k, p_features ! k)"
    and branch: "(\<exists>l. hasattr_get_neighbors_querypoint nl = Some l
                    \<and> get_neighbors_querypoint l probe_pos = Inr results
                    \<and> numbers = get_atomic_numbers a)
               \<or> (hasattr_get_neighbors_querypoint nl = None
                    \<and> length results = length probe_pos
                    \<and> numbers = get_atomic_numbers a @ replicate (length probe_pos) 0)"
    by blast
  have lr: "length results = length probe_pos"
    using branch assms(2) unfolding answers_every_point_def by blast
  have nums: "j < len_atoms a \<and> get_atomic_numbers a ! j \<noteq> 0"
    if "j < length numbers" "numbers ! j \<noteq> 0" for j
  proof -
    have la: "length (get_atomic_numbers a) = len_atoms a"
      by (simp add: get_atomic_numbers_def len_atoms_def)
    from branch show ?thesis
    proof
      assume "\<exists>l. hasattr_get_neighbors_querypoint nl = Some l
                    \<and> get_neighbors_querypoint l probe_pos = Inr results
                    \<and> numbers = get_atomic_numbers a"
      then show ?thesis using that la by auto
    next
      assume b: "hasattr_get_neighbors_querypoint nl = None
                    \<and> length results = length probe_pos
                    \<and> numbers = get_atomic_numbers a @ replicate (length probe_pos) 0"
      show ?thesis
      proof (cases "j < len_atoms a")
        case True
        then show ?thesis using that b la by (simp add: nth_append)
      next
        case False
        then have "numbers ! j = 0" using that(1) b la by (simp add: nth_append)
        with that(2) show ?thesis by simp
      qed
    qed
  qed
  have "ncols (p_edges ! k) = 2
          \<and> length (rows (p_edges ! k)) = length (p_features ! k)
          \<and> (\<forall>row\<in>set (rows (p_edges ! k)).
                \<exists>j. row = [j, k] \<and> j < len_atoms a \<and> get_atomic_numbers a ! j \<noteq> 0)"
    if "k < length probe_pos" for k
  proof -
    from that lr have k: "k < length results" by simp
    note r = probe_edges_of_Inr [OF each [OF k]]
    have "\<exists>j. row = [j, k] \<and> j < len_atoms a \<and> get_atomic_numbers a ! j \<noteq> 0"
      if "row \<in> set (rows (p_edges ! k))" for row
    proof -
      from that obtain j rel d2 where m: "(j, rel, d2) \<in> set (results ! k)"
        and nz: "numbers ! j \<noteq> 0" and row: "row = [j, k]"
        unfolding r(2) by auto
      from bspec [OF r(1) m] have "j < length numbers" by simp
      from nums [OF this nz] row show ?thesis by blast
    qed
    then show ?thesis unfolding r(2) r(3) by simp
  qed
  then show ?thesis using le lf lr by simp
qed

lemma probes_to_graph_two_atoms:
  "probes_to_graph reference_library two_atoms [(0, 1, 0), (0, 1, 1)] (3 / 2) None
     = Inr ([\<lparr>ncols = 2, rows = [[0, 0], [1, 0]]\<rparr>, \<lparr>ncols = 2, rows = [[0, 1]]\<rparr>],
            [[1, sqrt 2], [sqrt 2]])"
  by (simp add: probes_to_graph_def probes_to_graph_neighborlist_def two_atoms_def Let_def
        hasattr_get_neighbors_querypoint_def atoms_extend_def probe_atoms_def
        lengths_def norm3_def len_atoms_def get_atomic_numbers_def probe_edges_of_def
        wrapper_get_neighbors_def AseNeigborListWrapper_def reference_library_def
        closer_than_def get_positions_def vsub_def vadd_def sum_square_def offset_at_cell_def
        scale_def np_stack_def upt_conv_Cons enumerate_eq_zip)

lemma probes_to_graph_in_box:
  "probes_to_graph reference_library two_atoms_in_box [(0, 1, 0), (0, 1, 1)] (3 / 2)
       (Some (Fast (asap3_FullNeighborList reference_library (3 / 2) two_atoms_in_box)))
     = Inr ([\<lparr>ncols = 2, rows = [[0, 0], [1, 0]]\<rparr>, \<lparr>ncols = 2, rows = [[0, 1]]\<rparr>],
            [[1, sqrt 2], [sqrt 2]])"
  by (simp add: probes_to_graph_def two_atoms_in_box_def Let_def
        hasattr_get_neighbors_querypoint_def found_at_def
        len_atoms_def get_atomic_numbers_def probe_edges_of_def
        reference_library_def
        closer_than_def get_positions_def vsub_def sum_square_def
        np_stack_def upt_conv_Cons enumerate_eq_zip)

theorem probe_edges_atom_to_probe_witness:
  "probes_to_graph reference_library two_atoms [(0, 1, 0), (0, 1, 1)] (3 / 2) None
     = Inr ([\<lparr>ncols = 2, rows = [[0, 0], [1, 0]]\<rparr>, \<lparr>ncols = 2, rows = [[0, 1]]\<rparr>],
            [[1, sqrt 2], [sqrt 2]])
   \<and> answers_every_point None [(0, 1, 0), (0, 1, 1)]
   \<and> probes_to_graph reference_library two_atoms_in_box [(0, 1, 0), (0, 1, 1)] (3 / 2)
       (Some (Fast (asap3_FullNeighborList reference_library (3 / 2) two_atoms_in_box)))
     = Inr ([\<lparr>ncols = 2, rows = [[0, 0], [1, 0]]\<rparr>, \<lparr>ncols = 2, rows = [[0, 1]]\<rparr>],
            [[1, sqrt 2], [sqrt 2]])
   \<and> answers_every_point
         (Some (Fast (asap3_FullNeighborList reference_library (3 / 2) two_atoms_in_box)))
         [(0, 1, 0), (0, 1, 1)]
   \<and> length [\<lparr>ncols = 2, rows = [[0, 0], [1, 0::nat]]\<rparr>, \<lparr>ncols = 2, rows = [[0, 1]]\<rparr>]
       = length [(0, 1, 0), (0, 1, 1) :: vec3]"
proof -
  have h1: "answers_every_point None [(0, 1, 0), (0, 1, 1)]"
    by (simp add: answers_every_point_def hasattr_get_neighbors_querypoint_def)
  have h2: "answers_every_point
         (Some (Fast (asap3_FullNeighborList reference_library (3 / 2) two_atoms_in_box)))
         [(0, 1, 0), (0, 1, 1)]"
    by (auto simp: answers_every_point_def hasattr_get_neighbors_querypoint_def
          reference_library_def)
  from probe_edges_atom_to_probe [OF probes_to_graph_two_atoms h1]
    probe_edges_atom_to_probe [OF probes_to_graph_in_box h2]
  have l: "length [\<lparr>ncols = 2, rows = [[0, 0], [1, 0::nat]]\<rparr>, \<lparr>ncols = 2, rows = [[0, 1]]\<rparr>]
       = length [(0, 1, 0), (0, 1, 1) :: vec3]"
    by blast
  show ?thesis by (intro conjI probes_to_graph_two_atoms h1 probes_to_graph_in_box h2 l)
qed

section \<open>Properties of the atom edges\<close>

text \<open>
  The wrapper computes the same squared distance for a pair and for the reverse pair,
  so a primitive list that lists pairs both ways makes a fallback index whose answers
  are symmetric.
\<close>

lemma sum_square_reverse:
  "sum_square (vsub (vadd q (offset_at_cell (- s1, - s2, - s3) c)) p)
     = sum_square (vsub (vadd p (offset_at_cell (s1, s2, s3) c)) q)"
proof -
  obtain a1 a2 a3 where c: "c = (a1, a2, a3)" by (cases c)
  obtain a11 a12 a13 where a1: "a1 = (a11, a12, a13)" by (cases a1)
  obtain a21 a22 a23 where a2: "a2 = (a21, a22, a23)" by (cases a2)
  obtain a31 a32 a33 where a3: "a3 = (a31, a32, a33)" by (cases a3)
  obtain p1 p2 p3 where p: "p = (p1, p2, p3)" by (cases p)
  obtain q1 q2 q3 where q: "q = (q1, q2, q3)" by (cases q)
  have neg: "vsub (vadd q (offset_at_cell (- s1, - s2, - s3) c)) p
               = scale (- 1) (vsub (vadd p (offset_at_cell (s1, s2, s3) c)) q)"
    unfolding c a1 a2 a3 p q
    by (simp add: vsub_def vadd_def offset_at_cell_def scale_def)
  have "sum_square (scale (- 1) v) = sum_square v" for v
    by (cases v) (simp add: sum_square_def scale_def)
  then show ?thesis unfolding neg .
qed

lemma wrapper_lists_both_ways:
  assumes "primitive_both_ways (self_neighborlist w) (length (self_atoms_positions w))"
  shows "lists_both_ways (Fallback w) (self_cutoff w) (length (self_atoms_positions w))"
  unfolding lists_both_ways_def
proof (intro allI impI ballI)
  fix i found x
  let ?n = "length (self_atoms_positions w)"
  let ?pos = "self_atoms_positions w"
  assume i: "i < ?n" and g: "get_neighbors (Fallback w) i (self_cutoff w) = Inr found"
    and x: "x \<in> set found"
  obtain j rel d2 where xj: "x = (j, rel, d2)" by (cases x)
  from g have found: "found = map (\<lambda>(j, s).
                  let rel = vsub (vadd (?pos ! j) (offset_at_cell s (self_atoms_cell w))) (?pos ! i)
                  in (j, rel, sum_square rel)) (self_neighborlist w i)"
    by (auto simp: wrapper_get_neighbors_def Let_def split: if_splits)
  with x xj obtain s where s: "(j, s) \<in> set (self_neighborlist w i)"
    and d2: "d2 = sum_square (vsub (vadd (?pos ! j) (offset_at_cell s (self_atoms_cell w))) (?pos ! i))"
    by (auto simp: Let_def)
  obtain s1 s2 s3 where s3: "s = (s1, s2, s3)" by (cases s)
  note pb = assms [unfolded primitive_both_ways_def, rule_format]
  from pb [OF i s] have j: "j < ?n"
    and rv: "(i, (- s1, - s2, - s3)) \<in> set (self_neighborlist w j)"
    unfolding s3 by simp_all
  have inrange: "\<not> list_ex (\<lambda>(k, s). ?n \<le> k) (self_neighborlist w j)"
  proof
    assume "list_ex (\<lambda>(k, s). ?n \<le> k) (self_neighborlist w j)"
    then obtain k t where kt: "(k, t) \<in> set (self_neighborlist w j)" and "?n \<le> k"
      by (auto simp: list_ex_iff)
    moreover from pb [OF j kt] have "k < ?n" by (cases t) simp
    ultimately show False by simp
  qed
  let ?found' = "map (\<lambda>(k, s).
                  let rel = vsub (vadd (?pos ! k) (offset_at_cell s (self_atoms_cell w))) (?pos ! j)
                  in (k, rel, sum_square rel)) (self_neighborlist w j)"
  have g': "get_neighbors (Fallback w) j (self_cutoff w) = Inr ?found'"
    using inrange j by (simp add: wrapper_get_neighbors_def Let_def)
  let ?rel' = "vsub (vadd (?pos ! i) (offset_at_cell (- s1, - s2, - s3) (self_atoms_cell w))) (?pos ! j)"
  have "(i, ?rel', sum_square ?rel') \<in> set ?found'"
    using rv by (force simp: Let_def)
  moreover have "sum_square ?rel' = d2"
    unfolding d2 s3 by (rule sum_square_reverse)
  ultimately have "(i, ?rel', d2) \<in> set ?found'" by simp
  with g' show "case x of (j, rel, d2) \<Rightarrow>
           \<exists>found' rel'. get_neighbors (Fallback w) j (self_cutoff w) = Inr found'
              \<and> (i, rel', d2) \<in> set found'"
    unfolding xj by blast
qed

lemma wrapper_no_self_interaction:
  assumes "\<forall>i<n. \<forall>(j, s)\<in>set (self_neighborlist w i). j \<noteq> i"
  shows "no_self_interaction (Fallback w) cutoff n"
  unfolding no_self_interaction_def
proof (intro allI impI ballI)
  fix i found x
  assume i: "i < n" and g: "get_neighbors (Fallback w) i cutoff = Inr found"
    and x: "x \<in> set found"
  obtain j rel d2 where xj: "x = (j, rel, d2)" by (cases x)
  from g have "map fst found = map fst (self_neighborlist w i)"
    by (auto simp: wrapper_get_neighbors_def Let_def case_prod_beta split: if_splits)
  moreover have "j \<in> set (map fst found)" using x xj by force
  ultimately have "j \<in> fst ` set (self_neighborlist w i)" by simp
  then obtain s where "(j, s) \<in> set (self_neighborlist w i)" by auto
  from assms [rule_format, OF i this] have "j \<noteq> i" by simp
  then show "case x of (j, rel, d2) \<Rightarrow> j \<noteq> i" unfolding xj by simp
qed

lemma symmetric_edges_of_symmetric_index:
  assumes "atoms_to_graph lib a cutoff = Inr (edges, features, nl)"
    and "lists_both_ways nl cutoff (len_atoms a)"
    and "no_self_interaction nl cutoff (len_atoms a)"
  shows "\<forall>row d. (row, d) \<in> set (edge_list edges features) \<longrightarrow>
           (\<exists>i j. row = [j, i] \<and> i < len_atoms a \<and> j < len_atoms a \<and> i \<noteq> j
              \<and> ([i, j], d) \<in> set (edge_list edges features))"
proof (intro allI impI)
  fix row d
  assume "(row, d) \<in> set (edge_list edges features)"
  then obtain i found j rel d2 where i: "i < len_atoms a"
    and g: "get_neighbors nl i cutoff = Inr found" and m: "(j, rel, d2) \<in> set found"
    and row: "row = [j, i]" and d: "d = sqrt d2"
    unfolding atoms_to_graph_edge_iff [OF assms(1)] by blast
  from atoms_to_graph_Inr(3) [OF assms(1) i] g m have j: "j < len_atoms a" by auto
  from assms(3) i g have "\<forall>(j, rel, d2)\<in>set found. j \<noteq> i"
    unfolding no_self_interaction_def by blast
  from bspec [OF this m] have ne: "i \<noteq> j" by simp
  from assms(2) i g have "\<forall>(j, rel, d2)\<in>set found.
      \<exists>found' rel'. get_neighbors nl j cutoff = Inr found' \<and> (i, rel', d2) \<in> set found'"
    unfolding lists_both_ways_def by blast
  from bspec [OF this m] obtain found' rel' where g': "get_neighbors nl j cutoff = Inr found'"
    and m': "(i, rel', d2) \<in> set found'"
    by auto
  have "([i, j], d) \<in> set (edge_list edges features)"
    unfolding atoms_to_graph_edge_iff [OF assms(1)] using j g' m' d by blast
  then show "\<exists>i j. row = [j, i] \<and> i < len_atoms a \<and> j < len_atoms a \<and> i \<noteq> j
              \<and> ([i, j], d) \<in> set (edge_list edges features)"
    using row i j ne by blast
qed


lemma reference_primitive_two_atoms:
  "self_neighborlist (AseNeigborListWrapper reference_library (3 / 2) two_atoms) 0
     = [(1, (0, 0, 0))]"
  "self_neighborlist (AseNeigborListWrapper reference_library (3 / 2) two_atoms) (Suc 0)
     = [(0, (0, 0, 0))]"
  "self_cutoff (AseNeigborListWrapper reference_library (3 / 2) two_atoms) = 3 / 2"
  "self_atoms_positions (AseNeigborListWrapper reference_library (3 / 2) two_atoms)
     = [(0, 0, 0), (1, 0, 0)]"
  by (simp_all add: AseNeigborListWrapper_def reference_library_def two_atoms_def
        get_positions_def closer_than_def vsub_def sum_square_def upt_conv_Cons)

lemma atoms_to_graph_two_atoms:
  "atoms_to_graph reference_library two_atoms (3 / 2)
     = Inr ([\<lparr>ncols = 2, rows = [[1, 0]]\<rparr>, \<lparr>ncols = 2, rows = [[0, 1]]\<rparr>],
            [[1], [1]],
            Fallback (AseNeigborListWrapper reference_library (3 / 2) two_atoms))"
  by (simp add: atoms_to_graph_def atoms_to_graph_neighborlist_def two_atoms_def Let_def
        lengths_def norm3_def len_atoms_def get_atomic_numbers_def atom_edges_of_def
        wrapper_get_neighbors_def AseNeigborListWrapper_def reference_library_def
        closer_than_def get_positions_def vsub_def vadd_def sum_square_def offset_at_cell_def
        scale_def np_stack_def upt_conv_Cons)


section \<open>Properties of empty edge sets\<close>

lemma unravel_all:
  assumes "\<forall>f\<in>set fs. f < prod_shape s"
  shows "map_result (\<lambda>f. unravel_index f s) fs = Inr (map (\<lambda>f. projr (unravel_index f s)) fs)"
proof (rule map_result_Inr_map)
  show "\<forall>f\<in>set fs. \<exists>y. unravel_index f s = Inr y"
    using assms by (cases s) (auto simp: unravel_index_def prod_shape_def)
qed

lemma flat_index_in_range: "\<forall>f\<in>set (flat_index k pc s). f < prod_shape s"
  by (simp add: flat_index_def arange_def)

lemma np_concatenate_Inr:
  assumes "xs \<noteq> []" "\<forall>x\<in>set xs. ncols x = w"
  shows "np_concatenate xs = Inr \<lparr>ncols = w, rows = concat (map rows xs)\<rparr>"
  using assms by (cases xs) (auto simp: list_all_iff)

lemma np_concatenate1_Inr: "xs \<noteq> [] \<Longrightarrow> np_concatenate1 xs = Inr (concat xs)"
  by (cases xs) auto

lemma probes_to_graph_shapes:
  assumes "probes_to_graph lib a probe_pos cutoff nl = Inr (p_edges, p_features)"
  shows "length p_features = length p_edges"
    and "\<forall>e\<in>set p_edges. ncols e = 2"
    and "length (concat p_features) = length (concat (map rows p_edges))"
proof -
  from probes_to_graph_Inr [OF assms] obtain results numbers where
    le: "length p_edges = length results" and lf: "length p_features = length results"
    and each: "\<And>k. k < length results \<Longrightarrow>
                 probe_edges_of numbers (k, results ! k) = Inr (p_edges ! k, p_features ! k)"
    by blast
  show "length p_features = length p_edges" using le lf by simp
  show "\<forall>e\<in>set p_edges. ncols e = 2"
  proof
    fix e assume "e \<in> set p_edges"
    then obtain k where k: "k < length results" and e: "e = p_edges ! k"
      using le by (auto simp: in_set_conv_nth)
    from probe_edges_of_Inr(2) [OF each [OF k]] e show "ncols e = 2" by simp
  qed
  have "list_all2 (\<lambda>f e. length f = length e) p_features (map rows p_edges)"
    unfolding list_all2_conv_all_nth
  proof (intro conjI allI impI)
    show "length p_features = length (map rows p_edges)" using le lf by simp
    fix k assume "k < length p_features"
    then have k: "k < length results" using lf by simp
    note r = probe_edges_of_Inr [OF each [OF k]]
    show "length (p_features ! k) = length (map rows p_edges ! k)"
      using k le by (simp add: r(2) r(3))
  qed
  then show "length (concat p_features) = length (concat (map rows p_edges))"
    by (induction rule: list_all2_induct) auto
qed

lemma atoms_to_graph_shapes:
  assumes "atoms_to_graph lib a cutoff = Inr (a_edges, a_features, nl)"
  shows "length a_edges = len_atoms a" and "length a_features = len_atoms a"
    and "\<forall>e\<in>set a_edges. ncols e = 2"
    and "length (concat a_features) = length (concat (map rows a_edges))"
proof -
  note r = atoms_to_graph_Inr [OF assms]
  show "length a_edges = len_atoms a" "length a_features = len_atoms a" by (rule r)+
  show "\<forall>e\<in>set a_edges. ncols e = 2"
  proof
    fix e assume "e \<in> set a_edges"
    then obtain k where k: "k < len_atoms a" and e: "e = a_edges ! k"
      using r(1) by (auto simp: in_set_conv_nth)
    from r(3) [OF k] e show "ncols e = 2" by auto
  qed
  have "list_all2 (\<lambda>f e. length f = length e) a_features (map rows a_edges)"
    unfolding list_all2_conv_all_nth
  proof (intro conjI allI impI)
    show "length a_features = length (map rows a_edges)" using r(1,2) by simp
    fix k assume "k < length a_features"
    then have k: "k < len_atoms a" using r(2) by simp
    from r(3) [OF k] show "length (a_features ! k) = length (map rows a_edges ! k)"
      using k r(1) by auto
  qed
  then show "length (concat a_features) = length (concat (map rows a_edges))"
    by (induction rule: list_all2_induct) auto
qed

lemma placeholder_concatenate:
  assumes "length p_features = length p_edges" "\<forall>e\<in>set p_edges. ncols e = 2"
  shows "\<exists>es fs. placeholder_if_empty (p_edges, p_features) = (es, fs)
           \<and> np_concatenate es = Inr \<lparr>ncols = 2, rows = concat (map rows p_edges)\<rparr>
           \<and> np_concatenate1 fs = Inr (concat p_features)"
proof (cases "p_edges = []")
  case True
  then show ?thesis using assms(1)
    by (simp add: placeholder_if_empty_def np_zeros_def)
next
  case False
  then have "p_features \<noteq> []" using assms(1) by auto
  then show ?thesis using False assms(2)
    by (simp add: placeholder_if_empty_def np_concatenate_Inr np_concatenate1_Inr)
qed

lemma static_get_slice_Inr:
  assumes "probes_to_graph lib a (positions_at meshgrid
              (flat_index slice_index probe_count (grid_shape meshgrid))) cutoff nl
             = Inr (p_edges, p_features)"
  shows "static_get_slice lib slice_index a meshgrid probe_count cutoff nl
           = Inr \<lparr>probe_edges = \<lparr>ncols = 2, rows = concat (map rows p_edges)\<rparr>,
                  probe_edges_features = add_axis (concat p_features),
                  num_probe_edges = length (concat (map rows p_edges)),
                  num_probes = length (flat_index slice_index probe_count (grid_shape meshgrid))\<rparr>"
proof -
  let ?flat = "flat_index slice_index probe_count (grid_shape meshgrid)"
  have u: "map_result (\<lambda>f. unravel_index f (grid_shape meshgrid)) ?flat
             = Inr (map (\<lambda>f. projr (unravel_index f (grid_shape meshgrid))) ?flat)"
    by (rule unravel_all) (rule flat_index_in_range)
  have pp: "map (grid_at meshgrid \<circ> (\<lambda>f. projr (unravel_index f (grid_shape meshgrid)))) ?flat
              = positions_at meshgrid ?flat"
    by (simp add: positions_at_def comp_def)
  note sh = probes_to_graph_shapes [OF assms]
  from placeholder_concatenate [OF sh(1) sh(2)] obtain es fs where
    ph: "placeholder_if_empty (p_edges, p_features) = (es, fs)"
    and ce: "np_concatenate es = Inr \<lparr>ncols = 2, rows = concat (map rows p_edges)\<rparr>"
    and cf: "np_concatenate1 fs = Inr (concat p_features)"
    by blast
  show ?thesis
    unfolding static_get_slice_def Let_def u
    by (simp add: pp assms ph ce cf)
qed

lemma graph_dict_Inr:
  assumes "\<forall>f\<in>set probe_choice. f < prod_shape (grid_shape grid_pos)"
    and "atoms_to_graph lib a cutoff = Inr (a_edges, a_features, nl)"
    and "probes_to_graph lib a (positions_at grid_pos probe_choice) cutoff (Some nl)
           = Inr (p_edges, p_features)"
    and "atom_list a \<noteq> []"
  shows "atoms_and_probe_sample_to_graph_dict lib probe_choice density a grid_pos cutoff
           = Inr \<lparr>probe_edges = \<lparr>ncols = 2, rows = concat (map rows p_edges)\<rparr>,
                  probe_edges_features = add_axis (concat p_features),
                  num_probe_edges = length (concat (map rows p_edges)),
                  num_probes = length probe_choice,
                  nodes = get_atomic_numbers a,
                  atom_edges = \<lparr>ncols = 2, rows = concat (map rows a_edges)\<rparr>,
                  atom_edges_features = add_axis (concat a_features),
                  probe_target =
                    map (\<lambda>f. grid_at density (projr (unravel_index f (grid_shape grid_pos))))
                      probe_choice,
                  num_nodes = len_atoms a,
                  num_atom_edges = length (concat (map rows a_edges))\<rparr>"
proof -
  have u: "map_result (\<lambda>f. unravel_index f (grid_shape grid_pos)) probe_choice
             = Inr (map (\<lambda>f. projr (unravel_index f (grid_shape grid_pos))) probe_choice)"
    by (rule unravel_all) (rule assms(1))
  have pp: "map (\<lambda>f. grid_at grid_pos (projr (unravel_index f (grid_shape grid_pos))))
              probe_choice = positions_at grid_pos probe_choice"
    by (simp add: positions_at_def)
  note sh = probes_to_graph_shapes [OF assms(3)]
  from placeholder_concatenate [OF sh(1) sh(2)] obtain es fs where
    ph: "placeholder_if_empty (p_edges, p_features) = (es, fs)"
    and ce: "np_concatenate es = Inr \<lparr>ncols = 2, rows = concat (map rows p_edges)\<rparr>"
    and cf: "np_concatenate1 fs = Inr (concat p_features)"
    by blast
  note ash = atoms_to_graph_shapes [OF assms(2)]
  have ne: "a_edges \<noteq> []" "a_features \<noteq> []"
    using ash(1,2) assms(4) by (auto simp: len_atoms_def)
  have ae: "np_concatenate a_edges = Inr \<lparr>ncols = 2, rows = concat (map rows a_edges)\<rparr>"
    by (rule np_concatenate_Inr [OF ne(1) ash(3)])
  have af: "np_concatenate1 a_features = Inr (concat a_features)"
    by (rule np_concatenate1_Inr [OF ne(2)])
  show ?thesis
    unfolding atoms_and_probe_sample_to_graph_dict_def u
    by (simp add: pp assms(2,3) ph ce cf ae af comp_def get_atomic_numbers_def len_atoms_def)
qed

text \<open>
  Claim C8, as the code has it. Whenever the probe query of a grid slice returns,
  \<open>static_get_slice\<close> returns a dictionary whose probe-edge array has two columns and
  whose feature array has one, with as many rows as there are probe edges: the
  zero-row arrays \<open>np.zeros((0, 2))\<close> and \<open>np.zeros((0, 1))\<close> when there is no edge.
  For a training sample the same holds of the probe edges and of the atom edges,
  provided that the structure has at least one atom (and the probe choice is inside
  the grid and both graph constructions return).
\<close>

theorem empty_edge_sets_give_zero_row_arrays:
  "(\<forall>p_edges p_features.
      probes_to_graph lib a
          (positions_at meshgrid (flat_index slice_index probe_count (grid_shape meshgrid)))
          cutoff nl = Inr (p_edges, p_features) \<longrightarrow>
      (\<exists>res. static_get_slice lib slice_index a meshgrid probe_count cutoff nl = Inr res
         \<and> ncols (probe_edges res) = 2 \<and> ncols (probe_edges_features res) = 1
         \<and> rows (probe_edges res) = concat (map rows p_edges)
         \<and> length (rows (probe_edges_features res)) = length (rows (probe_edges res))
         \<and> (concat (map rows p_edges) = [] \<longrightarrow>
               probe_edges res = np_zeros 2 \<and> probe_edges_features res = np_zeros 1)))
   \<and> (\<forall>a_edges a_features nl' p_edges p_features.
        atom_list a \<noteq> [] \<longrightarrow>
        (\<forall>f\<in>set probe_choice. f < prod_shape (grid_shape grid_pos)) \<longrightarrow>
        atoms_to_graph lib a cutoff = Inr (a_edges, a_features, nl') \<longrightarrow>
        probes_to_graph lib a (positions_at grid_pos probe_choice) cutoff (Some nl')
          = Inr (p_edges, p_features) \<longrightarrow>
        (\<exists>res. atoms_and_probe_sample_to_graph_dict lib probe_choice density a grid_pos cutoff
                  = Inr res
           \<and> ncols (probe_edges res) = 2 \<and> ncols (probe_edges_features res) = 1
           \<and> ncols (atom_edges res) = 2 \<and> ncols (atom_edges_features res) = 1
           \<and> rows (probe_edges res) = concat (map rows p_edges)
           \<and> rows (atom_edges res) = concat (map rows a_edges)
           \<and> length (rows (probe_edges_features res)) = length (rows (probe_edges res))
           \<and> length (rows (atom_edges_features res)) = length (rows (atom_edges res))
           \<and> (concat (map rows p_edges) = [] \<longrightarrow>
                 probe_edges res = np_zeros 2 \<and> probe_edges_features res = np_zeros 1)
           \<and> (concat (map rows a_edges) = [] \<longrightarrow>
                 atom_edges res = np_zeros 2 \<and> atom_edges_features res = np_zeros 1)))"
proof (intro conjI allI impI)
  fix p_edges p_features
  assume p: "probes_to_graph lib a
          (positions_at meshgrid (flat_index slice_index probe_count (grid_shape meshgrid)))
          cutoff nl = Inr (p_edges, p_features)"
  note sh = probes_to_graph_shapes [OF p]
  show "\<exists>res. static_get_slice lib slice_index a meshgrid probe_count cutoff nl = Inr res
         \<and> ncols (probe_edges res) = 2 \<and> ncols (probe_edges_features res) = 1
         \<and> rows (probe_edges res) = concat (map rows p_edges)
         \<and> length (rows (probe_edges_features res)) = length (rows (probe_edges res))
         \<and> (concat (map rows p_edges) = [] \<longrightarrow>
               probe_edges res = np_zeros 2 \<and> probe_edges_features res = np_zeros 1)"
  proof -
    have z: "concat p_features = []" if "concat (map rows p_edges) = []"
      using sh(3) that by (metis length_0_conv)
    show ?thesis
      unfolding static_get_slice_Inr [OF p]
      using sh(3) z by (simp add: add_axis_def np_zeros_def del: concat_eq_Nil_conv)
  qed
next
  fix a_edges a_features nl' p_edges p_features
  assume na: "atom_list a \<noteq> []"
    and r: "\<forall>f\<in>set probe_choice. f < prod_shape (grid_shape grid_pos)"
    and ag: "atoms_to_graph lib a cutoff = Inr (a_edges, a_features, nl')"
    and pg: "probes_to_graph lib a (positions_at grid_pos probe_choice) cutoff (Some nl')
          = Inr (p_edges, p_features)"
  note sh = probes_to_graph_shapes [OF pg]
  note ash = atoms_to_graph_shapes [OF ag]
  show "\<exists>res. atoms_and_probe_sample_to_graph_dict lib probe_choice density a grid_pos cutoff
                  = Inr res
           \<and> ncols (probe_edges res) = 2 \<and> ncols (probe_edges_features res) = 1
           \<and> ncols (atom_edges res) = 2 \<and> ncols (atom_edges_features res) = 1
           \<and> rows (probe_edges res) = concat (map rows p_edges)
           \<and> rows (atom_edges res) = concat (map rows a_edges)
           \<and> length (rows (probe_edges_features res)) = length (rows (probe_edges res))
           \<and> length (rows (atom_edges_features res)) = length (rows (atom_edges res))
           \<and> (concat (map rows p_edges) = [] \<longrightarrow>
                 probe_edges res = np_zeros 2 \<and> probe_edges_features res = np_zeros 1)
           \<and> (concat (map rows a_edges) = [] \<longrightarrow>
                 atom_edges res = np_zeros 2 \<and> atom_edges_features res = np_zeros 1)"
  proof -
    have z: "concat p_features = []" if "concat (map rows p_edges) = []"
      using sh(3) that by (metis length_0_conv)
    have za: "concat a_features = []" if "concat (map rows a_edges) = []"
      using ash(4) that by (metis length_0_conv)
    show ?thesis
      unfolding graph_dict_Inr [OF r ag pg na]
      using sh(3) ash(4) z za by (simp add: add_axis_def np_zeros_def del: concat_eq_Nil_conv)
  qed
qed

text \<open>The definitions that evaluate the graph builders on the examples.\<close>

lemmas eval_defs =
  probes_to_graph_def probes_to_graph_neighborlist_def atoms_to_graph_def
  atoms_to_graph_neighborlist_def atom_edges_of_def probe_edges_of_def Let_def
  hasattr_get_neighbors_querypoint_def atoms_extend_def probe_atoms_def
  lengths_def norm3_def len_atoms_def get_atomic_numbers_def get_positions_def
  wrapper_get_neighbors_def AseNeigborListWrapper_def reference_library_def
  closer_than_def found_at_def vsub_def vadd_def sum_square_def offset_at_cell_def
  scale_def np_stack_def upt_conv_Cons enumerate_eq_zip positions_at_def
  flat_index_def arange_def prod_shape_def unravel_index_def
  one_point_grid_def one_point_density_def two_atoms_def no_atoms_def

lemma slice_without_probes:
  "probes_to_graph reference_library two_atoms
      (positions_at one_point_grid (flat_index 1 1 (grid_shape one_point_grid))) (3 / 2) None
     = Inr ([], [])"
  by (simp add: eval_defs)

lemma slice_without_neighbours:
  "probes_to_graph reference_library no_atoms
      (positions_at one_point_grid (flat_index 0 1 (grid_shape one_point_grid))) (3 / 2) None
     = Inr ([\<lparr>ncols = 2, rows = []\<rparr>], [[]])"
  by (simp add: eval_defs)

lemma isolated_atoms:
  "atoms_to_graph reference_library two_atoms (1 / 2)
     = Inr ([\<lparr>ncols = 2, rows = []\<rparr>, \<lparr>ncols = 2, rows = []\<rparr>], [[], []],
            Fallback (AseNeigborListWrapper reference_library (1 / 2) two_atoms))"
  by (simp add: eval_defs)

lemma isolated_atoms_no_probes:
  "probes_to_graph reference_library two_atoms (positions_at one_point_grid []) (1 / 2)
      (Some (Fallback (AseNeigborListWrapper reference_library (1 / 2) two_atoms)))
     = Inr ([], [])"
  by (simp add: eval_defs)

theorem empty_edge_sets_give_zero_row_arrays_witness:
  "static_get_slice reference_library 1 two_atoms one_point_grid 1 (3 / 2) None
     = Inr \<lparr>probe_edges = np_zeros 2, probe_edges_features = np_zeros 1,
            num_probe_edges = 0, num_probes = 0\<rparr>
   \<and> static_get_slice reference_library 0 no_atoms one_point_grid 1 (3 / 2) None
     = Inr \<lparr>probe_edges = np_zeros 2, probe_edges_features = np_zeros 1,
            num_probe_edges = 0, num_probes = 1\<rparr>
   \<and> atom_list two_atoms \<noteq> []
   \<and> atoms_and_probe_sample_to_graph_dict reference_library [] one_point_density two_atoms
         one_point_grid (1 / 2)
     = Inr \<lparr>probe_edges = np_zeros 2, probe_edges_features = np_zeros 1,
            num_probe_edges = 0, num_probes = 0, nodes = [1, 1],
            atom_edges = np_zeros 2, atom_edges_features = np_zeros 1,
            probe_target = [], num_nodes = 2, num_atom_edges = 0\<rparr>"
proof -
  note main = empty_edge_sets_give_zero_row_arrays
  have s1: "static_get_slice reference_library 1 two_atoms one_point_grid 1 (3 / 2) None
     = Inr \<lparr>probe_edges = np_zeros 2, probe_edges_features = np_zeros 1,
            num_probe_edges = 0, num_probes = 0\<rparr>"
  proof -
    from main [of reference_library two_atoms one_point_grid 1 1 "3 / 2" None]
      slice_without_probes
    obtain res where r: "static_get_slice reference_library 1 two_atoms one_point_grid 1 (3 / 2) None
          = Inr res"
      and e: "probe_edges res = np_zeros 2" "probe_edges_features res = np_zeros 1"
      and n: "rows (probe_edges res) = concat (map rows [])"
      by force
    note ev = static_get_slice_Inr [OF slice_without_probes]
    from r ev have "num_probe_edges res = 0" "num_probes res = 0"
      by (auto simp: flat_index_def arange_def one_point_grid_def prod_shape_def)
    with r e show ?thesis by (cases res) simp
  qed
  have s0: "static_get_slice reference_library 0 no_atoms one_point_grid 1 (3 / 2) None
     = Inr \<lparr>probe_edges = np_zeros 2, probe_edges_features = np_zeros 1,
            num_probe_edges = 0, num_probes = 1\<rparr>"
  proof -
    from main [of reference_library no_atoms one_point_grid 0 1 "3 / 2" None]
      slice_without_neighbours
    obtain res where r: "static_get_slice reference_library 0 no_atoms one_point_grid 1 (3 / 2) None
          = Inr res"
      and e: "probe_edges res = np_zeros 2" "probe_edges_features res = np_zeros 1"
      by force
    note ev = static_get_slice_Inr [OF slice_without_neighbours]
    from r ev have "num_probe_edges res = 0" "num_probes res = 1"
      by (auto simp: flat_index_def arange_def one_point_grid_def prod_shape_def)
    with r e show ?thesis by (cases res) simp
  qed
  have na: "atom_list two_atoms \<noteq> []" by (simp add: two_atoms_def)
  have rg: "\<forall>f\<in>set []. f < prod_shape (grid_shape one_point_grid)" by simp
  have g: "atoms_and_probe_sample_to_graph_dict reference_library [] one_point_density two_atoms
         one_point_grid (1 / 2)
     = Inr \<lparr>probe_edges = np_zeros 2, probe_edges_features = np_zeros 1,
            num_probe_edges = 0, num_probes = 0, nodes = [1, 1],
            atom_edges = np_zeros 2, atom_edges_features = np_zeros 1,
            probe_target = [], num_nodes = 2, num_atom_edges = 0\<rparr>"
  proof -
    from main [of reference_library two_atoms _ _ _ "1 / 2" _ "[]" one_point_grid one_point_density]
      na rg isolated_atoms isolated_atoms_no_probes
    obtain res where r: "atoms_and_probe_sample_to_graph_dict reference_library []
          one_point_density two_atoms one_point_grid (1 / 2) = Inr res"
      and e: "probe_edges res = np_zeros 2" "probe_edges_features res = np_zeros 1"
        "atom_edges res = np_zeros 2" "atom_edges_features res = np_zeros 1"
      by force
    from r graph_dict_Inr [OF rg isolated_atoms isolated_atoms_no_probes na, of one_point_density]
    have "num_probe_edges res = 0" "num_probes res = 0" "nodes res = [1, 1]"
      "probe_target res = []" "num_nodes res = 2" "num_atom_edges res = 0"
      by (auto simp: get_atomic_numbers_def len_atoms_def two_atoms_def)
    with r e show ?thesis by (cases res) simp
  qed
  show ?thesis by (intro conjI s1 s0 na g)
qed

text \<open>
  Without an atom the training sample is not built: the list of atom-edge arrays is
  empty, nothing replaces it, and \<open>np.concatenate\<close> raises, also when there is no
  probe and so no probe edge.
\<close>

theorem no_atoms_counterexample:
  "atoms_to_graph reference_library no_atoms (3 / 2)
     = Inr ([], [], Fallback (AseNeigborListWrapper reference_library (3 / 2) no_atoms))
   \<and> probes_to_graph reference_library no_atoms [] (3 / 2)
       (Some (Fallback (AseNeigborListWrapper reference_library (3 / 2) no_atoms)))
     = Inr ([], [])
   \<and> atoms_and_probe_sample_to_graph_dict reference_library [] one_point_density no_atoms
         one_point_grid (3 / 2)
     = Inl ValueError"
  by (simp add: atoms_and_probe_sample_to_graph_dict_def placeholder_if_empty_def np_zeros_def
        eval_defs)

section \<open>Properties of the collator\<close>

lemma values_of_key_Inr:
  assumes "\<forall>dic\<in>set l. map_of dic k \<noteq> None"
  shows "map_result (\<lambda>dic. getitem_dict dic k) l = Inr (field_values l k)"
proof -
  have "map_result (\<lambda>dic. getitem_dict dic k) l
          = Inr (map (\<lambda>dic. projr (getitem_dict dic k)) l)"
    by (rule map_result_Inr_map) (use assms in \<open>auto simp: getitem_dict_def\<close>)
  moreover have "map (\<lambda>dic. projr (getitem_dict dic k)) l = field_values l k"
    unfolding field_values_def using assms
    by (intro map_cong refl) (auto simp: getitem_dict_def)
  ultimately show ?thesis by simp
qed

lemma values_of_key_Inl:
  assumes "\<exists>dic\<in>set l. map_of dic k = None"
  shows "map_result (\<lambda>dic. getitem_dict dic k) l = Inl KeyError"
proof (cases "map_result (\<lambda>dic. getitem_dict dic k) l")
  case (Inl e)
  from map_result_Inl [OF this] have "e = KeyError"
    by (auto simp: getitem_dict_def split: option.splits)
  with Inl show ?thesis by simp
next
  case (Inr vs)
  from assms obtain dic where d: "dic \<in> set l" and m: "map_of dic k = None" by blast
  from map_result_Inr_each [OF Inr d] m show ?thesis by (simp add: getitem_dict_def)
qed

lemma dict_of_lists_Inr:
  assumes "l \<noteq> []" "\<forall>dic\<in>set l. \<forall>k\<in>set (map fst (hd l)). map_of dic k \<noteq> None"
  shows "dict_of_lists l = Inr (map (\<lambda>k. (k, field_values l k)) (map fst (hd l)))"
proof -
  let ?f = "\<lambda>k. case map_result (\<lambda>dic. getitem_dict dic k) l of
                    Inl e \<Rightarrow> Inl e | Inr vs \<Rightarrow> Inr (k, vs)"
  have each: "?f k = Inr (k, field_values l k)" if "k \<in> set (map fst (hd l))" for k
  proof -
    from assms(2) that have "\<forall>dic\<in>set l. map_of dic k \<noteq> None" by blast
    from values_of_key_Inr [OF this] show ?thesis by simp
  qed
  have "map_result ?f (map fst (hd l)) = Inr (map (\<lambda>k. projr (?f k)) (map fst (hd l)))"
    by (rule map_result_Inr_map) (use each in blast)
  moreover have "map (\<lambda>k. projr (?f k)) (map fst (hd l))
                   = map (\<lambda>k. (k, field_values l k)) (map fst (hd l))"
    by (rule map_cong [OF refl]) (simp add: each)
  ultimately show ?thesis using assms(1) by (cases l) (simp_all add: dict_of_lists_def)
qed

lemma dict_of_lists_Inl:
  assumes "l \<noteq> []" "\<exists>dic\<in>set l. \<exists>k\<in>set (map fst (hd l)). map_of dic k = None"
  shows "dict_of_lists l = Inl KeyError"
proof -
  let ?f = "\<lambda>k. case map_result (\<lambda>dic. getitem_dict dic k) l of
                    Inl e \<Rightarrow> Inl e | Inr vs \<Rightarrow> Inr (k, vs)"
  from assms(2) obtain k where k: "k \<in> set (map fst (hd l))"
    and miss: "\<exists>dic\<in>set l. map_of dic k = None" by blast
  have fk: "?f k = Inl KeyError" using values_of_key_Inl [OF miss] by simp
  have only: "e = KeyError" if "?f k' = Inl e" for k' e
  proof (cases "map_result (\<lambda>dic. getitem_dict dic k') l")
    case (Inl e')
    from map_result_Inl [OF this] have "e' = KeyError"
      by (auto simp: getitem_dict_def split: option.splits)
    with that Inl show ?thesis by simp
  next
    case (Inr vs)
    with that show ?thesis by simp
  qed
  have "map_result ?f (map fst (hd l)) = Inl KeyError"
  proof (cases "map_result ?f (map fst (hd l))")
    case (Inl e)
    from map_result_Inl [OF this] obtain k' where "?f k' = Inl e" by blast
    from only [OF this] have "e = KeyError" .
    with Inl show ?thesis by simp
  next
    case (Inr ys)
    from map_result_Inr_each [OF Inr k] fk show ?thesis by simp
  qed
  then show ?thesis using assms(1) by (cases l) (simp_all add: dict_of_lists_def)
qed

lemma collate_by_field:
  assumes "l \<noteq> []" "\<forall>dic\<in>set l. \<forall>k\<in>set (map fst (hd l)). map_of dic k \<noteq> None"
  shows "collate_list_of_dicts p l pin
           = map_result (\<lambda>k. case p (field_values l k) of Inl e \<Rightarrow> Inl e | Inr t \<Rightarrow> Inr (k, t))
               (map fst (hd l))"
proof -
  have g: "map_result (\<lambda>(k, vs). case p vs of Inl e \<Rightarrow> Inl e | Inr t \<Rightarrow> Inr (k, t))
             (map (\<lambda>k. (k, field_values l k)) ks)
           = map_result (\<lambda>k. case p (field_values l k) of Inl e \<Rightarrow> Inl e | Inr t \<Rightarrow> Inr (k, t)) ks"
    for ks
    by (induction ks) (auto split: sum.splits)
  show ?thesis
    unfolding collate_list_of_dicts_def dict_of_lists_Inr [OF assms]
    by (simp only: sum.case Let_def if_cancel g)
qed

lemma keys_of_batch:
  assumes "map_result (\<lambda>k. case p (vs k) of Inl e \<Rightarrow> Inl e | Inr t \<Rightarrow> Inr (k, t)) ks = Inr batch"
  shows "map fst batch = ks"
  using assms
  by (induction ks arbitrary: batch) (auto split: sum.splits)

lemma batch_of_fields:
  assumes "\<forall>k\<in>set ks. p (vs k) = Inr (t k)"
  shows "map_result (\<lambda>k. case p (vs k) of Inl e \<Rightarrow> Inl e | Inr u \<Rightarrow> Inr (k, u)) ks
           = Inr (map (\<lambda>k. (k, t k)) ks)"
  using assms by (induction ks) auto

text \<open>The definitions that evaluate the collator on the examples.\<close>

lemmas collate_eval =
  collate_list_of_dicts_def dict_of_lists_def getitem_dict_def pad_and_stack_def
  two_atom_graph_def graph_without_count_def graph_with_count_def

text \<open>
  Claim C5, as the code has it. For a non-empty list of graphs, the collator raises
  \<open>KeyError\<close>, before anything is stacked and whatever \<open>pad_and_stack\<close> does, when
  some graph lacks a field of the first graph. When every graph has all the fields of
  the first graph, the dictionary of lists is built from the fields of the first
  graph alone: the batch has exactly these fields, a field that only later graphs
  have is dropped without an error, and the collator returns when \<open>pad_and_stack\<close>
  accepts every field.
\<close>

theorem collate_fails_on_missing_key_of_first:
  assumes "l \<noteq> []"
  shows "((\<exists>dic\<in>set l. \<exists>k\<in>set (map fst (hd l)). map_of dic k = None) \<longrightarrow>
            dict_of_lists l = Inl KeyError \<and> collate_list_of_dicts p l pin = Inl KeyError)
         \<and> ((\<forall>dic\<in>set l. \<forall>k\<in>set (map fst (hd l)). map_of dic k \<noteq> None) \<longrightarrow>
               dict_of_lists l = Inr (map (\<lambda>k. (k, field_values l k)) (map fst (hd l)))
               \<and> (\<forall>batch. collate_list_of_dicts p l pin = Inr batch \<longrightarrow>
                     map fst batch = map fst (hd l))
               \<and> ((\<forall>k\<in>set (map fst (hd l)). \<exists>t. p (field_values l k) = Inr t) \<longrightarrow>
                     (\<exists>batch. collate_list_of_dicts p l pin = Inr batch)))"
proof (intro conjI impI allI)
  assume m: "\<exists>dic\<in>set l. \<exists>k\<in>set (map fst (hd l)). map_of dic k = None"
  show d: "dict_of_lists l = Inl KeyError" by (rule dict_of_lists_Inl [OF assms m])
  show "collate_list_of_dicts p l pin = Inl KeyError"
    by (simp add: collate_list_of_dicts_def d)
next
  assume a: "\<forall>dic\<in>set l. \<forall>k\<in>set (map fst (hd l)). map_of dic k \<noteq> None"
  show "dict_of_lists l = Inr (map (\<lambda>k. (k, field_values l k)) (map fst (hd l)))"
    by (rule dict_of_lists_Inr [OF assms a])
next
  fix batch
  assume a: "\<forall>dic\<in>set l. \<forall>k\<in>set (map fst (hd l)). map_of dic k \<noteq> None"
    and b: "collate_list_of_dicts p l pin = Inr batch"
  from b show "map fst batch = map fst (hd l)"
    unfolding collate_by_field [OF assms a] by (rule keys_of_batch)
next
  assume a: "\<forall>dic\<in>set l. \<forall>k\<in>set (map fst (hd l)). map_of dic k \<noteq> None"
    and t: "\<forall>k\<in>set (map fst (hd l)). \<exists>t. p (field_values l k) = Inr t"
  have "\<forall>k\<in>set (map fst (hd l)). p (field_values l k) = Inr (projr (p (field_values l k)))"
    using t by auto
  from batch_of_fields [of "map fst (hd l)" p "field_values l"
      "\<lambda>k. projr (p (field_values l k))", OF this]
  show "\<exists>batch. collate_list_of_dicts p l pin = Inr batch"
    unfolding collate_by_field [OF assms a] by blast
qed

theorem collate_fails_on_missing_key_of_first_witness:
  "[graph_with_count, graph_without_count] \<noteq> []
   \<and> map_of graph_without_count ''num_nodes'' = None
   \<and> collate_list_of_dicts pad_and_stack [graph_with_count, graph_without_count] False
       = Inl KeyError"
proof -
  have ne: "[graph_with_count, graph_without_count] \<noteq> []" by simp
  have m: "map_of graph_without_count ''num_nodes'' = None"
    by (simp add: graph_without_count_def)
  then have "\<exists>dic\<in>set [graph_with_count, graph_without_count].
           \<exists>k\<in>set (map fst (hd [graph_with_count, graph_without_count])). map_of dic k = None"
    by (simp add: graph_with_count_def)
  with collate_fails_on_missing_key_of_first [OF ne, of pad_and_stack False]
  have "collate_list_of_dicts pad_and_stack [graph_with_count, graph_without_count] False
       = Inl KeyError"
    by blast
  with ne m show ?thesis by simp
qed

text \<open>
  The claim as stated fails when it is the first graph that lacks a field: the second
  graph has the field \<open>num_nodes\<close>, the first has not, and the batch is built without
  it.
\<close>

theorem extra_field_counterexample:
  "map_of graph_without_count ''num_nodes'' = None
   \<and> map_of graph_with_count ''num_nodes'' = Some (Scalar 1)
   \<and> collate_list_of_dicts pad_and_stack [graph_without_count, graph_with_count] False
       = Inr [(''nodes'', Seq [Scalar 1, Scalar 6])]"
  by (simp add: collate_eval)

lemma pad_and_stack_scalars:
  assumes "ts \<noteq> []" "list_all is_scalar ts"
  shows "pad_and_stack ts = Inr (Seq ts)"
  using assms by (cases ts) (simp_all add: pad_and_stack_def)

lemma pad_and_stack_arrays:
  assumes "ts \<noteq> []" "list_all (\<lambda>t. \<not> is_scalar t) ts"
  shows "pad_and_stack ts = Inr (Seq (concat (map items ts)))"
proof -
  from assms obtain t rest where ts: "ts = t # rest" by (cases ts) auto
  with assms(2) have "\<not> list_all is_scalar ts" by simp
  with assms(2) ts show ?thesis by (simp add: pad_and_stack_def)
qed




end
